theory Spec2Isabelle
  imports Main "HOL-Library.Sublist"
begin

section \<open>Characters and the \<^verbatim>\<open>std::string\<close> operations the code uses\<close>

text \<open>
  A \<^verbatim>\<open>std::string\<close> is a \<^typ>\<open>string\<close> (a list of 8-bit characters). An index of
  type \<^verbatim>\<open>size_t\<close> is a \<^typ>\<open>nat\<close>; the value \<^verbatim>\<open>std::string::npos\<close>, which every
  \<^verbatim>\<open>find\<close> returns when nothing is found, is \<open>None\<close>.
\<close>

abbreviation LF :: char where "LF \<equiv> CHR 0x0A"
abbreviation CR :: char where "CR \<equiv> CHR 0x0D"
abbreviation NUL :: char where "NUL \<equiv> CHR 0x00"

text \<open>\<^verbatim>\<open>isspace\<close> and \<^verbatim>\<open>isdigit\<close> of the C locale.\<close>

definition isspace :: "char \<Rightarrow> bool" where
  "isspace c \<longleftrightarrow> c = CHR '' '' \<or> c = CHR 0x09 \<or> c = LF \<or> c = CHR 0x0B \<or> c = CHR 0x0C \<or> c = CR"

definition isdigit :: "char \<Rightarrow> bool" where
  "isdigit c \<longleftrightarrow> c \<in> set ''0123456789''"

text \<open>\<^verbatim>\<open>s.find(c, pos)\<close>: the first index \<open>i \<ge> pos\<close> with \<open>s[i] == c\<close>.\<close>

fun index_of :: "char \<Rightarrow> string \<Rightarrow> nat option" where
  "index_of c [] = None"
| "index_of c (x # xs) = (if x = c then Some 0 else map_option Suc (index_of c xs))"

definition find_char :: "string \<Rightarrow> char \<Rightarrow> nat \<Rightarrow> nat option" where
  "find_char s c pos = map_option (\<lambda>i. pos + i) (index_of c (drop pos s))"

text \<open>\<^verbatim>\<open>s.find(pat)\<close>: the first index at which \<open>pat\<close> occurs in \<open>s\<close>.\<close>

fun find_str :: "string \<Rightarrow> string \<Rightarrow> nat option" where
  "find_str [] pat = (if pat = [] then Some 0 else None)"
| "find_str (x # xs) pat =
     (if prefix pat (x # xs) then Some 0 else map_option Suc (find_str xs pat))"

text \<open>\<^verbatim>\<open>s.find_first_not_of(c)\<close> and \<^verbatim>\<open>s.find_last_not_of(c)\<close>.\<close>

fun find_first_not_of :: "string \<Rightarrow> char \<Rightarrow> nat option" where
  "find_first_not_of [] c = None"
| "find_first_not_of (x # xs) c =
     (if x \<noteq> c then Some 0 else map_option Suc (find_first_not_of xs c))"

definition find_last_not_of :: "string \<Rightarrow> char \<Rightarrow> nat option" where
  "find_last_not_of s c =
     map_option (\<lambda>i. length s - 1 - i) (find_first_not_of (rev s) c)"

text \<open>
  \<^verbatim>\<open>s.substr(pos, n)\<close> and \<^verbatim>\<open>s.substr(pos)\<close>. The library call raises
  \<^verbatim>\<open>std::out_of_range\<close> when \<open>pos > s.size()\<close>; every call of the code passes a
  position that a \<^verbatim>\<open>find\<close> returned (plus at most one, or plus the length of the
  pattern found), which lemma \<open>find_char_bound\<close> and \<open>find_str_Some\<close> keep within the
  string, so that branch is never taken and \<open>substr\<close> is the plain slice.
\<close>

definition substr :: "string \<Rightarrow> nat \<Rightarrow> nat \<Rightarrow> string" where
  "substr s pos n = take n (drop pos s)"

definition substr_from :: "string \<Rightarrow> nat \<Rightarrow> string" where
  "substr_from s pos = drop pos s"

text \<open>
  \<^verbatim>\<open>Request::trim\<close>. When \<open>first\<close> is found \<open>last\<close> is found too; the branch where it
  is not writes out what \<^verbatim>\<open>npos - first + 1\<close> is in 64-bit \<^verbatim>\<open>size_t\<close> arithmetic.
\<close>

definition trim :: "string \<Rightarrow> string" where
  "trim str =
     (let first = find_first_not_of str (CHR '' '');
          last = find_last_not_of str (CHR '' '')
      in case first of
           None \<Rightarrow> []
         | Some f \<Rightarrow>
             (case last of
                Some l \<Rightarrow> substr str f (l - f + 1)
              | None \<Rightarrow> substr str f ((2 ^ 64 - f) mod 2 ^ 64)))"

subsection \<open>Input streams\<close>

text \<open>
  A \<^verbatim>\<open>std::istringstream\<close> is the text not yet read. \<^verbatim>\<open>std::getline(stream, line, d)\<close>
  fails (\<open>None\<close>) at the end of the text; otherwise it yields the characters before the
  first \<open>d\<close> and consumes that \<open>d\<close>. A stream that has failed keeps failing: its remaining
  text is empty.
\<close>

definition getline :: "string \<Rightarrow> char \<Rightarrow> (string \<times> string) option" where
  "getline stream d =
     (if stream = [] then None
      else Some (takeWhile (\<lambda>c. c \<noteq> d) stream, drop 1 (dropWhile (\<lambda>c. c \<noteq> d) stream)))"

text \<open>
  \<^verbatim>\<open>stream >> word\<close>: skips white space, then reads up to the next white space. It
  fails (\<open>None\<close>), leaving the target string as it was, when only white space is left.
\<close>

definition extract_word :: "string \<Rightarrow> (string \<times> string) option" where
  "extract_word stream =
     (let s = dropWhile isspace stream
      in if s = [] then None
         else Some (takeWhile (\<lambda>c. \<not> isspace c) s, dropWhile (\<lambda>c. \<not> isspace c) s))"

subsection \<open>\<^verbatim>\<open>std::stoi\<close>\<close>

text \<open>
  \<^verbatim>\<open>std::stoi(str)\<close> in base 10, as the C++ standard defines it through \<^verbatim>\<open>strtol\<close>:
  leading white space is skipped, one sign is accepted, then the longest run of digits is
  read. It throws \<^verbatim>\<open>std::invalid_argument\<close> when there is no digit to read and
  \<^verbatim>\<open>std::out_of_range\<close> when the value is not a 32-bit \<^verbatim>\<open>int\<close>.
\<close>

datatype exn = invalid_argument | out_of_range

definition digit_val :: "char \<Rightarrow> nat" where
  "digit_val c = of_char c - 48"

definition decimal :: "string \<Rightarrow> nat" where
  "decimal ds = foldl (\<lambda>acc c. 10 * acc + digit_val c) 0 ds"

definition INT_MAX :: int where "INT_MAX = 2147483647"
definition INT_MIN :: int where "INT_MIN = - 2147483648"

definition stoi :: "string \<Rightarrow> exn + int" where
  "stoi str =
     (let s = dropWhile isspace str;
          (neg, t) = (case s of
                        c # t' \<Rightarrow> if c = CHR ''-'' then (True, t')
                                  else if c = CHR ''+'' then (False, t') else (False, s)
                      | [] \<Rightarrow> (False, s));
          ds = takeWhile isdigit t
      in if ds = [] then Inl invalid_argument
         else let v = (if neg then - int (decimal ds) else int (decimal ds))
              in if v < INT_MIN \<or> INT_MAX < v then Inl out_of_range else Inr v)"

section \<open>Request\<close>

text \<open>The members of \<^verbatim>\<open>Request\<close>; the member \<^verbatim>\<open>method\<close> is \<open>method_req\<close> here.\<close>

record Request =
  method_req :: string
  url :: string
  protocol :: string
  host :: string
  port :: int
  path :: string
  body :: string
  headers :: "string \<rightharpoonup> string"
  query :: "string \<rightharpoonup> string"

text \<open>\<^verbatim>\<open>Request::getHeader\<close> and \<^verbatim>\<open>Request::queryParam\<close> (both \<^verbatim>\<open>const\<close>).\<close>

definition getHeader :: "Request \<Rightarrow> string \<Rightarrow> string" where
  "getHeader r key = (case headers r key of Some v \<Rightarrow> v | None \<Rightarrow> [])"

definition queryParam :: "Request \<Rightarrow> string \<Rightarrow> string" where
  "queryParam r key = (case query r key of Some v \<Rightarrow> v | None \<Rightarrow> [])"

text \<open>
  \<^verbatim>\<open>Request::extractUrlComponents\<close>. The only statement that can throw is the call of
  \<^verbatim>\<open>std::stoi\<close>; the exception leaves the function (and the constructor). With
  \<open>pathStart == npos\<close> the count \<^verbatim>\<open>pathStart - portStart - 1\<close> is at least the length of
  the rest of the string, so that \<^verbatim>\<open>substr\<close> is the rest of the string.
\<close>

definition set_host_port :: "Request \<Rightarrow> string \<Rightarrow> string \<Rightarrow> exn + Request" where
  "set_host_port r h portText =
     (case stoi portText of
        Inl e \<Rightarrow> Inl e
      | Inr n \<Rightarrow> Inr (r\<lparr>host := h, port := n\<rparr>))"

definition extractUrlComponents :: "string \<Rightarrow> Request \<Rightarrow> exn + Request" where
  "extractUrlComponents u r =
     (let r1 = (if find_str u ''https://'' = Some 0
                then r\<lparr>protocol := ''HTTPS'', port := 443\<rparr>
                else r\<lparr>protocol := ''HTTP'', port := 80\<rparr>);
          protocolEnd = find_str u ''://'';
          hostStart = (case protocolEnd of Some e \<Rightarrow> e + 3 | None \<Rightarrow> 0);
          portStart = find_char u (CHR '':'') hostStart;
          pathStart = find_char u (CHR ''/'') hostStart
      in case portStart of
           Some ps \<Rightarrow>
             (case pathStart of
                None \<Rightarrow>
                  set_host_port r1 (substr u hostStart (ps - hostStart)) (substr_from u (ps + 1))
              | Some pa \<Rightarrow>
                  if ps < pa
                  then set_host_port r1 (substr u hostStart (ps - hostStart))
                         (substr u (ps + 1) (pa - ps - 1))
                  else Inr (r1\<lparr>host := substr u hostStart (pa - hostStart)\<rparr>))
         | None \<Rightarrow>
             (case pathStart of
                Some pa \<Rightarrow> Inr (r1\<lparr>host := substr u hostStart (pa - hostStart)\<rparr>)
              | None \<Rightarrow> Inr (r1\<lparr>host := substr_from u hostStart\<rparr>)))"

text \<open>
  \<^verbatim>\<open>Request::parseQueryParams\<close>: the loop over \<^verbatim>\<open>std::getline(queryStream, pair, '&')\<close>.
\<close>

definition insert_pair :: "char \<Rightarrow> string \<Rightarrow> (string \<rightharpoonup> string) \<Rightarrow> (string \<rightharpoonup> string)" where
  "insert_pair sep line m =
     (case find_char line sep 0 of
        Some separator \<Rightarrow>
          m(trim (substr line 0 separator) \<mapsto> trim (substr_from line (separator + 1)))
      | None \<Rightarrow> m)"

lemma getline_shorter: "getline s d = Some (l, rest) \<Longrightarrow> length rest < length s"
proof -
  assume a: "getline s d = Some (l, rest)"
  then have ne: "s \<noteq> []" and r: "rest = drop 1 (dropWhile (\<lambda>c. c \<noteq> d) s)"
    by (auto simp: getline_def split: if_splits)
  have "length (dropWhile (\<lambda>c. c \<noteq> d) s) \<le> length s"
    by (rule length_dropWhile_le)
  with ne r show ?thesis
    by (cases "dropWhile (\<lambda>c. c \<noteq> d) s") auto
qed

function parseQueryParams :: "string \<Rightarrow> Request \<Rightarrow> Request" where
  "parseQueryParams queryStream r =
     (case getline queryStream (CHR ''&'') of
        None \<Rightarrow> r
      | Some (pair, rest) \<Rightarrow>
          parseQueryParams rest (r\<lparr>query := insert_pair (CHR ''='') pair (query r)\<rparr>))"
  by pat_completeness auto
termination
  by (relation "measure (\<lambda>(s, r). length s)") (auto dest: getline_shorter)

declare parseQueryParams.simps [simp del]

text \<open>
  The two loops of \<^verbatim>\<open>Request::parseRequest\<close>. The header loop ends when
  \<^verbatim>\<open>std::getline\<close> fails or yields an empty line (which it has consumed); it returns the
  text still unread. The body loop appends every remaining line and a newline.
\<close>

function header_loop :: "string \<Rightarrow> Request \<Rightarrow> Request \<times> string" where
  "header_loop requestStream r =
     (case getline requestStream LF of
        None \<Rightarrow> (r, [])
      | Some (headerLine, rest) \<Rightarrow>
          if headerLine = [] then (r, rest)
          else header_loop rest (r\<lparr>headers := insert_pair (CHR '':'') headerLine (headers r)\<rparr>))"
  by pat_completeness auto
termination
  by (relation "measure (\<lambda>(s, r). length s)") (auto dest: getline_shorter)

declare header_loop.simps [simp del]

function body_loop :: "string \<Rightarrow> Request \<Rightarrow> Request" where
  "body_loop requestStream r =
     (case getline requestStream LF of
        None \<Rightarrow> r
      | Some (remaining, rest) \<Rightarrow> body_loop rest (r\<lparr>body := body r @ remaining @ [LF]\<rparr>))"
  by pat_completeness auto
termination
  by (relation "measure (\<lambda>(s, r). length s)") (auto dest: getline_shorter)

declare body_loop.simps [simp del]

text \<open>
  The block of \<^verbatim>\<open>Request::parseRequest\<close> that splits \<open>url\<close> at its first \<^verbatim>\<open>'?'\<close>.
\<close>

definition parse_path_query :: "Request \<Rightarrow> Request" where
  "parse_path_query r =
     (case find_char (url r) (CHR ''?'') 0 of
        Some queryPos \<Rightarrow>
          parseQueryParams (substr_from (url r) (queryPos + 1))
            (r\<lparr>path := substr (url r) 0 queryPos\<rparr>)
      | None \<Rightarrow> r\<lparr>path := url r\<rparr>)"

text \<open>
  \<^verbatim>\<open>Request::parseRequest\<close>, first its opening statements: the request line is read and
  \<open>method_req\<close> and \<open>url\<close> are extracted from it. The result of that first \<^verbatim>\<open>std::getline\<close>
  is not checked: when it fails the request line is empty. A failed \<^verbatim>\<open>>>\<close> leaves
  its target as it was. The second component is the text left in \<open>requestStream\<close>.
\<close>

definition read_request_line :: "string \<Rightarrow> Request \<Rightarrow> Request \<times> string" where
  "read_request_line httpRequest r =
     (let (requestLine, requestStream) =
            (case getline httpRequest LF of Some p \<Rightarrow> p | None \<Rightarrow> ([], []));
          (r1, lineStream) =
            (case extract_word requestLine of
               Some (w, s) \<Rightarrow> (r\<lparr>method_req := w\<rparr>, s)
             | None \<Rightarrow> (r, []));
          r2 = (case extract_word lineStream of
                  Some (w, s) \<Rightarrow> r1\<lparr>url := w\<rparr>
                | None \<Rightarrow> r1)
      in (r2, requestStream))"

definition parseRequest :: "string \<Rightarrow> Request \<Rightarrow> exn + Request" where
  "parseRequest httpRequest r =
     (let (r2, requestStream) = read_request_line httpRequest r
      in case extractUrlComponents (url r2) r2 of
           Inl e \<Rightarrow> Inl e
         | Inr r3 \<Rightarrow>
             (let r4 = parse_path_query r3;
                  (r5, bodyStream) = header_loop requestStream r4;
                  r6 = body_loop bodyStream r5
              in Inr (if body r6 \<noteq> [] then r6\<lparr>body := butlast (body r6)\<rparr> else r6)))"

text \<open>
  The constructor \<^verbatim>\<open>Request::Request(httpRequest)\<close>: strings and mappings start empty.
  The member \<open>port\<close> is not initialised; \<open>extractUrlComponents\<close> assigns it before anything
  reads it, and \<open>p0\<close> stands for whatever it held.
\<close>

definition Request_init :: "int \<Rightarrow> Request" where
  "Request_init p0 =
     \<lparr>method_req = [], url = [], protocol = [], host = [], port = p0, path = [], body = [],
      headers = Map.empty, query = Map.empty\<rparr>"

definition Request_ctor :: "string \<Rightarrow> exn + Request" where
  "Request_ctor httpRequest = parseRequest httpRequest (Request_init 0)"

section \<open>Response\<close>

text \<open>
  The members of \<^verbatim>\<open>Response\<close>; \<^verbatim>\<open>body\<close> and \<^verbatim>\<open>headers\<close> are \<open>body_res\<close> and \<open>headers_res\<close>
  here, apart from the members of the same names of \<^verbatim>\<open>Request\<close>.
\<close>

record Response =
  statusCode :: int
  body_res :: string
  headers_res :: "string \<rightharpoonup> string"

text \<open>\<^verbatim>\<open>std::to_string\<close> of a \<^verbatim>\<open>size_t\<close>, and \<^verbatim>\<open>operator<<\<close> of an \<^verbatim>\<open>int\<close>: decimal.\<close>

fun to_string :: "nat \<Rightarrow> string" where
  "to_string n =
     (if n < 10 then [''0123456789'' ! n]
      else to_string (n div 10) @ [''0123456789'' ! (n mod 10)])"

declare to_string.simps [simp del]

definition show_int :: "int \<Rightarrow> string" where
  "show_int i = (if i < 0 then CHR ''-'' # to_string (nat (- i)) else to_string (nat i))"

definition Response_ctor :: Response where
  "Response_ctor = \<lparr>statusCode = 200, body_res = [], headers_res = Map.empty\<rparr>"

definition status :: "int \<Rightarrow> Response \<Rightarrow> Response" where
  "status code res = res\<lparr>statusCode := code\<rparr>"

definition setHeader :: "string \<Rightarrow> string \<Rightarrow> Response \<Rightarrow> Response" where
  "setHeader key val res = res\<lparr>headers_res := (headers_res res)(key \<mapsto> val)\<rparr>"

definition send :: "string \<Rightarrow> Response \<Rightarrow> Response" where
  "send responseBody res =
     (let res1 = res\<lparr>body_res := responseBody\<rparr>;
          res2 = setHeader ''Content-Length'' (to_string (length (body_res res1))) res1
      in setHeader ''Content-Type'' ''text/plain'' res2)"

definition json :: "string \<Rightarrow> Response \<Rightarrow> Response" where
  "json jsonBody res =
     (let res1 = res\<lparr>body_res := jsonBody\<rparr>;
          res2 = setHeader ''Content-Length'' (to_string (length (body_res res1))) res1
      in setHeader ''Content-Type'' ''application/json'' res2)"

text \<open>
  \<^verbatim>\<open>Response::readFile\<close> and \<^verbatim>\<open>Response::sendFile\<close>. The file system is a parameter:
  \<open>fs p\<close> is the content of the file at \<open>p\<close>, or \<open>None\<close> when it cannot be opened.
\<close>

definition readFile :: "(string \<rightharpoonup> string) \<Rightarrow> string \<Rightarrow> string" where
  "readFile fs filePath =
     (case fs filePath of None \<Rightarrow> ''File not found'' | Some buffer \<Rightarrow> buffer)"

definition sendFile :: "(string \<rightharpoonup> string) \<Rightarrow> string \<Rightarrow> Response \<Rightarrow> Response" where
  "sendFile fs filePath res =
     (let res1 = res\<lparr>body_res := readFile fs filePath\<rparr>;
          res2 = setHeader ''Content-Type'' ''text/html'' res1
      in setHeader ''Content-Length'' (to_string (length (body_res res2))) res2)"

definition getStatusMessage :: "Response \<Rightarrow> string" where
  "getStatusMessage res =
     (if statusCode res = 200 then ''OK''
      else if statusCode res = 400 then ''Bad Request''
      else if statusCode res = 404 then ''Not Found''
      else if statusCode res = 500 then ''Internal Server Error''
      else ''Unknown Status'')"

text \<open>
  \<^verbatim>\<open>Response::toHttpResponse\<close>. The loop iterates over a \<^verbatim>\<open>std::unordered_map\<close>, whose
  order the language leaves open; the order \<open>ks\<close> in which the keys come is a parameter.
  \<open>iteration_order ks res\<close> says that \<open>ks\<close> is such an order: every key once.
\<close>

definition crlf :: string where
  "crlf = [CR, LF]"

definition header_line :: "Response \<Rightarrow> string \<Rightarrow> string" where
  "header_line res k =
     (case headers_res res k of Some v \<Rightarrow> k @ '': '' @ v @ crlf | None \<Rightarrow> [])"

definition toHttpResponse :: "string list \<Rightarrow> Response \<Rightarrow> string" where
  "toHttpResponse ks res =
     ''HTTP/1.1 '' @ show_int (statusCode res) @ '' '' @ getStatusMessage res @ crlf
     @ concat (map (header_line res) ks)
     @ crlf @ body_res res"

definition iteration_order :: "string list \<Rightarrow> Response \<Rightarrow> bool" where
  "iteration_order ks res \<longleftrightarrow> distinct ks \<and> set ks = dom (headers_res res)"

section \<open>App\<close>

type_synonym RouteHandler = "Request \<Rightarrow> Response \<Rightarrow> Response"

text \<open>
  Of the members of \<^verbatim>\<open>App\<close>, \<open>get\<close>, \<open>post\<close> and \<open>handleRequest\<close> use the route table
  only (and the mutex that guards it).
\<close>

record App =
  routes :: "string \<rightharpoonup> RouteHandler"

definition get :: "string \<Rightarrow> RouteHandler \<Rightarrow> App \<Rightarrow> App" where
  "get p handler app = app\<lparr>routes := (routes app)(p \<mapsto> handler)\<rparr>"

definition post :: "string \<Rightarrow> RouteHandler \<Rightarrow> App \<Rightarrow> App" where
  "post p handler app = app\<lparr>routes := (routes app)(p \<mapsto> handler)\<rparr>"

text \<open>A sequence of calls of \<open>get\<close> and \<open>post\<close>, in program order.\<close>

datatype registration = Get string RouteHandler | Post string RouteHandler

fun register :: "registration \<Rightarrow> App \<Rightarrow> App" where
  "register (Get p h) app = get p h app"
| "register (Post p h) app = post p h app"

fun reg_path :: "registration \<Rightarrow> string" where
  "reg_path (Get p h) = p"
| "reg_path (Post p h) = p"

fun reg_handler :: "registration \<Rightarrow> RouteHandler" where
  "reg_handler (Get p h) = h"
| "reg_handler (Post p h) = h"

text \<open>
  \<^verbatim>\<open>App::handleRequest\<close>. The argument is what \<^verbatim>\<open>read\<close> did: \<open>None\<close> when it returned
  a negative count, \<open>Some bytes\<close> when it stored \<open>bytes\<close> (at most \<open>BUFFER_SIZE\<close> of them)
  at the start of the zeroed buffer. \<^verbatim>\<open>std::string requestStr(buffer)\<close> reads up to the
  first NUL; a buffer with none is read past its end. An exception of the \<open>Request\<close>
  constructor is caught nowhere. The result \<open>Sent res\<close> stands for writing
  \<open>toHttpResponse\<close> of \<open>res\<close> to the socket.
\<close>

definition BUFFER_SIZE :: nat where
  "BUFFER_SIZE = 1024"

datatype outcome = ReadFailed | BufferOverrun | Uncaught exn | Sent Response

definition fill_buffer :: "string \<Rightarrow> string" where
  "fill_buffer bytes =
     take BUFFER_SIZE bytes @ replicate (BUFFER_SIZE - length bytes) NUL"

definition not_found_fallback :: "Response \<Rightarrow> Response" where
  "not_found_fallback res =
     (if body_res res = [] then send ''Not Found'' (status 404 res) else res)"

definition handleRequest :: "App \<Rightarrow> string option \<Rightarrow> outcome" where
  "handleRequest app rd =
     (case rd of
        None \<Rightarrow> ReadFailed
      | Some bytes \<Rightarrow>
          (let buffer = fill_buffer bytes
           in if NUL \<notin> set buffer then BufferOverrun
              else
                (let requestStr = takeWhile (\<lambda>c. c \<noteq> NUL) buffer
                 in case Request_ctor requestStr of
                      Inl e \<Rightarrow> Uncaught e
                    | Inr req \<Rightarrow>
                        (let res = Response_ctor\<lparr>statusCode := 404\<rparr>;
                             res1 = (case routes app (path req) of
                                       Some handler \<Rightarrow> handler req res
                                     | None \<Rightarrow> res)
                         in Sent (not_found_fallback res1)))))"

section \<open>ThreadPool\<close>

text \<open>
  The members \<open>tasks\<close> and \<open>stop\<close> of \<^verbatim>\<open>ThreadPool\<close>; a task is a value of any type.
  \<^verbatim>\<open>ThreadPool::enqueue\<close> returns nothing and has no \<^verbatim>\<open>throw\<close>: its result is the pool
  with the task at the back of the queue. The result type has a place for an error so
  that a failing \<open>enqueue\<close> can be told from one that succeeds.
\<close>

record 'task ThreadPool =
  tasks :: "'task list"
  stop :: bool

datatype pool_error = PoolStopped

definition enqueue :: "'task \<Rightarrow> 'task ThreadPool \<Rightarrow> pool_error + 'task ThreadPool" where
  "enqueue f pool = Inr (pool\<lparr>tasks := tasks pool @ [f]\<rparr>)"

section \<open>The parsing steps in the words of the specification\<close>

text \<open>
  The definitions of this section follow the description of the parser, not its code;
  the theorems below compare the two. \<open>split_on d s\<close> are the pieces of \<open>s\<close> between
  occurrences of \<open>d\<close> (a final \<open>d\<close> ends the last piece and starts no new one).
\<close>

fun split_on :: "char \<Rightarrow> string \<Rightarrow> string list" where
  "split_on d [] = []"
| "split_on d (c # cs) =
     (if c = d then [] # split_on d cs
      else (case split_on d cs of [] \<Rightarrow> [[c]] | p # ps \<Rightarrow> (c # p) # ps))"

definition trim_spaces :: "string \<Rightarrow> string" where
  "trim_spaces s =
     rev (dropWhile (\<lambda>c. c = CHR '' '') (rev (dropWhile (\<lambda>c. c = CHR '' '') s)))"

text \<open>
  Of the pieces \<open>ls\<close>, those that hold \<open>sep\<close>, each split at its first \<open>sep\<close> with both
  sides trimmed; and the mapping a list of pairs gives when a later pair replaces an
  earlier one with the same key.
\<close>

definition key_value_pairs :: "char \<Rightarrow> string list \<Rightarrow> (string \<times> string) list" where
  "key_value_pairs sep ls =
     map (\<lambda>l. (trim_spaces (takeWhile (\<lambda>c. c \<noteq> sep) l),
               trim_spaces (drop 1 (dropWhile (\<lambda>c. c \<noteq> sep) l))))
       (filter (\<lambda>l. sep \<in> set l) ls)"

definition last_wins :: "(string \<times> string) list \<Rightarrow> (string \<rightharpoonup> string)" where
  "last_wins kvs = map_of (rev kvs)"

text \<open>Every line followed by a newline, and the removal of one trailing newline.\<close>

definition newline_terminated :: "string list \<Rightarrow> string" where
  "newline_terminated ls = concat (map (\<lambda>l. l @ [LF]) ls)"

definition strip_trailing_newline :: "string \<Rightarrow> string" where
  "strip_trailing_newline t = (if t \<noteq> [] \<and> last t = LF then butlast t else t)"

text \<open>The lines joined with one newline between two neighbours.\<close>

fun join_lines :: "string list \<Rightarrow> string" where
  "join_lines [] = []"
| "join_lines [l] = l"
| "join_lines (l # ls) = l @ [LF] @ join_lines ls"

text \<open>
  The text of a URL behind its scheme separator \<^verbatim>\<open>://\<close>, or the whole URL when it has
  none; the characters that end the host; and the host together with the text of the
  port, which is present when the host ends at a colon and runs up to the next slash.
\<close>

definition host_end :: "char \<Rightarrow> bool" where
  "host_end c \<longleftrightarrow> c = CHR '':'' \<or> c = CHR ''/''"

definition after_scheme :: "string \<Rightarrow> string" where
  "after_scheme u = (case find_str u ''://'' of Some e \<Rightarrow> drop (e + 3) u | None \<Rightarrow> u)"

definition host_and_port_text :: "string \<Rightarrow> string \<times> string option" where
  "host_and_port_text rest =
     (takeWhile (\<lambda>c. \<not> host_end c) rest,
      case dropWhile (\<lambda>c. \<not> host_end c) rest of
        [] \<Rightarrow> None
      | c # pt \<Rightarrow> if c = CHR '':'' then Some (takeWhile (\<lambda>c. c \<noteq> CHR ''/'') pt) else None)"

section \<open>Requests used as examples\<close>

definition example_request :: string where
  "example_request = ''POST /p HTTP/1.1'' @ [LF] @ ''Host: a'' @ [LF] @ ''nocolon'' @ [LF] @ ''Host : b ''
      @ [LF, LF] @ ''l1'' @ [LF] @ ''l2'' @ [LF]"

definition crlf_request :: string where
  "crlf_request = ''POST /p HTTP/1.1'' @ crlf @ ''Host: x'' @ crlf @ ''Content-Length: 3'' @ crlf
      @ crlf @ ''k:v''"

definition plain_query_request :: string where
  "plain_query_request = ''GET /search?q=test&x=y&q=last HTTP/1.1'' @ crlf @ crlf"

text \<open>Requests for the dispatcher, and two handlers.\<close>

definition missing_request :: string where
  "missing_request = ''GET /nothing HTTP/1.1'' @ crlf @ crlf"

definition route_request :: string where
  "route_request = ''GET /a HTTP/1.1'' @ crlf @ crlf"

definition handler_one :: RouteHandler where
  "handler_one req res = send ''one'' (status 200 res)"

definition handler_two :: RouteHandler where
  "handler_two req res = send ''two'' (status 200 res)"

text \<open>The response of the example \<^verbatim>\<open>status(400).setHeader("X","y").send("hi")\<close>.\<close>

definition example_response :: Response where
  "example_response = send ''hi'' (setHeader ''X'' ''y'' (status 400 Response_ctor))"

section \<open>Facts about the string operations\<close>

lemma index_of_eq:
  "index_of c s = (if c \<in> set s then Some (length (takeWhile (\<lambda>x. x \<noteq> c) s)) else None)"
  by (induction s) auto

lemma find_char_eq:
  "find_char s c pos =
     (if c \<in> set (drop pos s)
      then Some (pos + length (takeWhile (\<lambda>x. x \<noteq> c) (drop pos s))) else None)"
  by (simp add: find_char_def index_of_eq)

lemma find_char_0:
  "find_char s c 0 =
     (if c \<in> set s then Some (length (takeWhile (\<lambda>x. x \<noteq> c) s)) else None)"
  by (simp add: find_char_eq)

lemma takeWhile_neq_less: "c \<in> set s \<Longrightarrow> length (takeWhile (\<lambda>x. x \<noteq> c) s) < length s"
  by (induction s) auto

lemma find_char_bound:
  assumes "find_char s c pos = Some i"
  shows "pos \<le> i \<and> i < length s \<and> s ! i = c"
proof -
  let ?d = "drop pos s"
  let ?n = "length (takeWhile (\<lambda>x. x \<noteq> c) ?d)"
  from assms have mem: "c \<in> set ?d" and i: "i = pos + ?n"
    by (auto simp: find_char_eq split: if_splits)
  from mem have n: "?n < length ?d" by (rule takeWhile_neq_less)
  have "?d ! ?n = c"
    using mem nth_length_takeWhile [of "\<lambda>x. x \<noteq> c" ?d] n by auto
  moreover have "?d ! ?n = s ! (pos + ?n)"
    using n by (simp add: nth_drop)
  ultimately show ?thesis using i n by auto
qed

lemma find_str_Some:
  "find_str s pat = Some i \<Longrightarrow>
     i + length pat \<le> length s \<and> prefix pat (drop i s) \<and> (\<forall>j<i. \<not> prefix pat (drop j s))"
proof (induction s arbitrary: i)
  case Nil
  then show ?case by (auto split: if_splits)
next
  case (Cons x xs)
  show ?case
  proof (cases "prefix pat (x # xs)")
    case True
    with Cons.prems show ?thesis by (auto dest: prefix_length_le)
  next
    case False
    with Cons.prems obtain k where k: "find_str xs pat = Some k" "i = Suc k"
      by auto
    from Cons.IH [OF k(1)] False k(2) show ?thesis
      by (auto simp: less_Suc_eq_0_disj)
  qed
qed

lemma find_str_None:
  "find_str s pat = None \<Longrightarrow> j \<le> length s \<Longrightarrow> \<not> prefix pat (drop j s)"
proof (induction s arbitrary: j)
  case Nil
  then show ?case by (auto split: if_splits)
next
  case (Cons x xs)
  then show ?case by (cases j) (auto split: if_splits)
qed

lemma find_str_prefix: "find_str s pat = Some 0 \<longleftrightarrow> prefix pat s"
  by (cases s) auto

lemma find_first_not_of_eq:
  "find_first_not_of s c =
     (if \<exists>x\<in>set s. x \<noteq> c then Some (length (takeWhile (\<lambda>x. x = c) s)) else None)"
  by (induction s) auto

lemma length_takeWhile_less: "\<exists>x\<in>set xs. \<not> P x \<Longrightarrow> length (takeWhile P xs) < length xs"
  by (induction xs) auto

lemma trim_eq:
  "trim s = rev (dropWhile (\<lambda>x. x = CHR '' '') (rev (dropWhile (\<lambda>x. x = CHR '' '') s)))"
proof (cases "\<exists>x\<in>set s. x \<noteq> CHR '' ''")
  case False
  then have "find_first_not_of s (CHR '' '') = None"
    by (simp add: find_first_not_of_eq)
  then have t: "trim s = []"
    by (simp add: trim_def)
  have d: "dropWhile (\<lambda>x. x = CHR '' '') s = []"
    using False by (simp add: dropWhile_eq_Nil_conv)
  show ?thesis unfolding t d by simp
next
  case True
  let ?P = "\<lambda>x. x = CHR '' ''"
  let ?d = "dropWhile ?P s"
  let ?f = "length (takeWhile ?P s)"
  let ?t = "length (takeWhile ?P (rev s))"
  from True have ex: "\<exists>x\<in>set (rev s). x \<noteq> CHR '' ''" by simp
  from True have dne: "?d \<noteq> []" by auto
  then have nP: "\<not> ?P (hd ?d)" by (rule hd_dropWhile)
  from dne have "hd ?d \<in> set ?d" by (rule hd_in_set)
  then have "hd ?d \<in> set (rev ?d)" by (simp only: set_rev)
  with nP have exd: "\<exists>x\<in>set (rev ?d). \<not> ?P x" by blast
  have "rev s = rev ?d @ rev (takeWhile ?P s)"
    using rev_append [of "takeWhile ?P s" ?d] by simp
  moreover from exd obtain x where "x \<in> set (rev ?d)" "\<not> ?P x"
    by blast
  then have "takeWhile ?P (rev ?d @ rev (takeWhile ?P s)) = takeWhile ?P (rev ?d)"
    by (rule takeWhile_append1)
  ultimately have tw: "takeWhile ?P (rev s) = takeWhile ?P (rev ?d)"
    by simp
  have tlt: "?t < length ?d"
    unfolding tw using length_takeWhile_less [OF exd] by simp
  have len: "length s = ?f + length ?d"
    using length_append [of "takeWhile ?P s" ?d] by simp
  have cnt: "length s - 1 - ?t - ?f + 1 = length ?d - ?t"
    using tlt len by linarith
  have dr: "drop ?f s = ?d"
    by (simp add: dropWhile_eq_drop)
  have "trim s = take (length s - 1 - ?t - ?f + 1) (drop ?f s)"
    using True ex by (simp add: trim_def find_first_not_of_eq find_last_not_of_def substr_def)
  also have "\<dots> = take (length ?d - ?t) ?d"
    by (simp only: cnt dr)
  also have "\<dots> = rev (drop ?t (rev ?d))"
    by (simp add: rev_drop)
  also have "drop ?t (rev ?d) = dropWhile ?P (rev ?d)"
    unfolding tw by (simp add: dropWhile_eq_drop)
  finally show ?thesis .
qed

lemma substr_takeWhile: "substr s 0 (length (takeWhile P s)) = takeWhile P s"
  by (simp add: substr_def takeWhile_eq_take [symmetric])

lemma substr_from_dropWhile:
  "substr_from s (Suc (length (takeWhile P s))) = drop 1 (dropWhile P s)"
  by (simp add: substr_from_def dropWhile_eq_drop)

lemma insert_pair_eq:
  "insert_pair sep line m =
     (if sep \<in> set line
      then m(trim (takeWhile (\<lambda>x. x \<noteq> sep) line)
               \<mapsto> trim (drop 1 (dropWhile (\<lambda>x. x \<noteq> sep) line)))
      else m)"
  by (simp add: insert_pair_def find_char_0 substr_takeWhile substr_from_dropWhile)

section \<open>What the descriptions say\<close>

text \<open>
  The pieces of a split hold no delimiter and give the text back when each is followed
  by the delimiter; a later pair replaces an earlier one; a piece without separator adds
  no pair; a trimmed text neither starts nor ends with a space.
\<close>

lemma split_on_no_delimiter: "p \<in> set (split_on d s) \<Longrightarrow> d \<notin> set p"
proof (induction s arbitrary: p)
  case Nil
  then show ?case by simp
next
  case (Cons c cs)
  then show ?case
    by (cases "split_on d cs") (auto split: if_splits)
qed

lemma split_on_Nil_iff: "split_on d s = [] \<longleftrightarrow> s = []"
  by (cases s) (auto split: list.splits)

lemma split_on_concat:
  "concat (map (\<lambda>p. p @ [d]) (split_on d s)) = (if s = [] \<or> last s = d then s else s @ [d])"
proof (induction s)
  case Nil
  show ?case by simp
next
  case (Cons c cs)
  show ?case
  proof (cases "cs = []")
    case True
    then show ?thesis by simp
  next
    case False
    then obtain p ps where sp: "split_on d cs = p # ps"
      by (cases "split_on d cs") (simp_all add: split_on_Nil_iff)
    with Cons.IH False show ?thesis by auto
  qed
qed

lemma last_wins_snoc: "last_wins (kvs @ [(k, v)]) = (last_wins kvs)(k \<mapsto> v)"
  by (simp add: last_wins_def)

lemma key_value_pairs_snoc:
  "key_value_pairs sep (ls @ [l]) =
     (if sep \<in> set l
      then key_value_pairs sep ls @
             [(trim_spaces (takeWhile (\<lambda>c. c \<noteq> sep) l),
               trim_spaces (drop 1 (dropWhile (\<lambda>c. c \<noteq> sep) l)))]
      else key_value_pairs sep ls)"
  by (simp add: key_value_pairs_def)

lemma trim_spaces_no_outer_space:
  assumes "trim_spaces s \<noteq> []"
  shows "hd (trim_spaces s) \<noteq> CHR '' '' \<and> last (trim_spaces s) \<noteq> CHR '' ''"
proof -
  let ?P = "\<lambda>c. c = CHR '' ''"
  define d where "d = dropWhile ?P s"
  define e where "e = dropWhile ?P (rev d)"
  have t: "trim_spaces s = rev e"
    by (simp add: trim_spaces_def d_def e_def)
  with assms have ene: "e \<noteq> []" by simp
  then have dne: "d \<noteq> []" by (auto simp: e_def)
  have "\<not> ?P (hd e)" using ene unfolding e_def by (rule hd_dropWhile)
  then have l: "last (rev e) \<noteq> CHR '' ''" using ene by (simp add: last_rev)
  have "rev d = takeWhile ?P (rev d) @ e" by (simp add: e_def)
  then have "last (rev d) = last e" using ene by (metis last_appendR)
  then have "hd (rev e) = hd d" using ene dne by (simp add: hd_rev last_rev)
  moreover have "\<not> ?P (hd d)" using dne unfolding d_def by (rule hd_dropWhile)
  ultimately show ?thesis using l by (simp add: t)
qed

section \<open>The loops of the parser as folds over the pieces\<close>

lemma split_on_getline:
  "split_on d s = (case getline s d of None \<Rightarrow> [] | Some (l, rest) \<Rightarrow> l # split_on d rest)"
proof (induction s)
  case Nil
  show ?case by (simp add: getline_def)
next
  case (Cons c cs)
  show ?case
  proof (cases "c = d")
    case True
    then show ?thesis by (simp add: getline_def)
  next
    case False
    show ?thesis
    proof (cases cs)
      case Nil
      with False show ?thesis by (simp add: getline_def)
    next
      case (Cons a as)
      then have "cs \<noteq> []" by simp
      with Cons.IH have "split_on d cs =
          takeWhile (\<lambda>x. x \<noteq> d) cs # split_on d (drop 1 (dropWhile (\<lambda>x. x \<noteq> d) cs))"
        by (simp add: getline_def)
      with False show ?thesis by (simp add: getline_def)
    qed
  qed
qed

lemma trim_spaces_eq: "trim s = trim_spaces s"
  by (simp add: trim_eq trim_spaces_def)

lemma fold_insert_pair:
  "fold (insert_pair sep) ls m = m ++ last_wins (key_value_pairs sep ls)"
proof (induction ls arbitrary: m)
  case Nil
  show ?case by (simp add: last_wins_def key_value_pairs_def)
next
  case (Cons l ls)
  show ?case
  proof (cases "sep \<in> set l")
    case False
    then have "insert_pair sep l m = m" by (simp add: insert_pair_eq)
    moreover from False have "key_value_pairs sep (l # ls) = key_value_pairs sep ls"
      by (simp add: key_value_pairs_def)
    ultimately show ?thesis using Cons.IH [of m] by simp
  next
    case True
    let ?k = "trim_spaces (takeWhile (\<lambda>c. c \<noteq> sep) l)"
    let ?v = "trim_spaces (drop 1 (dropWhile (\<lambda>c. c \<noteq> sep) l))"
    from True have ins: "insert_pair sep l m = m(?k \<mapsto> ?v)"
      by (simp add: insert_pair_eq trim_spaces_eq)
    from True have kv: "key_value_pairs sep (l # ls) = (?k, ?v) # key_value_pairs sep ls"
      by (simp add: key_value_pairs_def)
    have "last_wins ((?k, ?v) # key_value_pairs sep ls)
            = [?k \<mapsto> ?v] ++ last_wins (key_value_pairs sep ls)"
      by (simp add: last_wins_def)
    then have eq: "m ++ last_wins (key_value_pairs sep (l # ls))
            = m(?k \<mapsto> ?v) ++ last_wins (key_value_pairs sep ls)"
      unfolding kv by (simp add: map_add_assoc [symmetric])
    have "fold (insert_pair sep) (l # ls) m = fold (insert_pair sep) ls (insert_pair sep l m)"
      by simp
    also have "\<dots> = fold (insert_pair sep) ls (m(?k \<mapsto> ?v))"
      by (simp only: ins)
    also have "\<dots> = m(?k \<mapsto> ?v) ++ last_wins (key_value_pairs sep ls)"
      by (rule Cons.IH)
    also have "\<dots> = m ++ last_wins (key_value_pairs sep (l # ls))"
      by (rule eq [symmetric])
    finally show ?thesis .
  qed
qed

lemma parseQueryParams_eq:
  "parseQueryParams qs r =
     r\<lparr>query := query r ++ last_wins (key_value_pairs (CHR ''='') (split_on (CHR ''&'') qs))\<rparr>"
proof (induction qs r rule: parseQueryParams.induct)
  case (1 queryStream r)
  show ?case
  proof (cases "getline queryStream (CHR ''&'')")
    case None
    then have "queryStream = []" by (simp add: getline_def split: if_splits)
    then show ?thesis
      by (simp add: parseQueryParams.simps [of "[]"] getline_def last_wins_def key_value_pairs_def)
  next
    case (Some p)
    obtain pair rest where p: "p = (pair, rest)" by (cases p)
    from "1.IH" [OF Some p [symmetric]] Some p
    show ?thesis
      by (simp add: parseQueryParams.simps [of queryStream] split_on_getline [of _ queryStream]
          fold_insert_pair [symmetric])
  qed
qed

lemma header_loop_fst:
  "fst (header_loop s r) =
     r\<lparr>headers := headers r ++
          last_wins (key_value_pairs (CHR '':'') (takeWhile (\<lambda>l. l \<noteq> []) (split_on LF s)))\<rparr>"
proof (induction s r rule: header_loop.induct)
  case (1 requestStream r)
  show ?case
  proof (cases "getline requestStream LF")
    case None
    then have "requestStream = []" by (simp add: getline_def split: if_splits)
    then show ?thesis
      by (simp add: header_loop.simps [of "[]"] getline_def last_wins_def key_value_pairs_def)
  next
    case (Some p)
    obtain headerLine rest where p: "p = (headerLine, rest)" by (cases p)
    show ?thesis
    proof (cases "headerLine = []")
      case True
      with Some p show ?thesis
        by (simp add: header_loop.simps [of requestStream] split_on_getline [of _ requestStream]
            last_wins_def key_value_pairs_def)
    next
      case False
      from "1.IH" [OF Some p [symmetric] False] Some p False
      show ?thesis
        by (simp add: header_loop.simps [of requestStream] split_on_getline [of _ requestStream]
            fold_insert_pair [symmetric])
    qed
  qed
qed

lemma header_loop_snd:
  "split_on LF (snd (header_loop s r)) = drop 1 (dropWhile (\<lambda>l. l \<noteq> []) (split_on LF s))"
proof (induction s r rule: header_loop.induct)
  case (1 requestStream r)
  show ?case
  proof (cases "getline requestStream LF")
    case None
    then have "requestStream = []" by (simp add: getline_def split: if_splits)
    then show ?thesis
      by (simp add: header_loop.simps [of "[]"] getline_def)
  next
    case (Some p)
    obtain headerLine rest where p: "p = (headerLine, rest)" by (cases p)
    show ?thesis
    proof (cases "headerLine = []")
      case True
      with Some p show ?thesis
        by (simp add: header_loop.simps [of requestStream] split_on_getline [of _ requestStream])
    next
      case False
      from "1.IH" [OF Some p [symmetric] False] Some p False
      show ?thesis
        by (simp add: header_loop.simps [of requestStream] split_on_getline [of _ requestStream])
    qed
  qed
qed

lemma body_loop_eq:
  "body_loop s r = r\<lparr>body := body r @ newline_terminated (split_on LF s)\<rparr>"
proof (induction s r rule: body_loop.induct)
  case (1 requestStream r)
  show ?case
  proof (cases "getline requestStream LF")
    case None
    then have "requestStream = []" by (simp add: getline_def split: if_splits)
    then show ?thesis
      by (simp add: body_loop.simps [of "[]"] getline_def newline_terminated_def)
  next
    case (Some p)
    obtain remaining rest where p: "p = (remaining, rest)" by (cases p)
    from "1.IH" [OF Some p [symmetric]] Some p
    show ?thesis
      by (simp add: body_loop.simps [of requestStream] split_on_getline [of _ requestStream]
          newline_terminated_def)
  qed
qed

lemma newline_terminated_last:
  "ls \<noteq> [] \<Longrightarrow> newline_terminated ls \<noteq> [] \<and> last (newline_terminated ls) = LF"
  by (induction ls) (auto simp: newline_terminated_def)

lemma butlast_newline_terminated:
  "ls \<noteq> [] \<Longrightarrow> butlast (newline_terminated ls) = join_lines ls"
proof (induction ls rule: join_lines.induct)
  case 1
  then show ?case by simp
next
  case (2 l)
  show ?case by (simp add: newline_terminated_def)
next
  case (3 l v va)
  have ne: "newline_terminated (v # va) \<noteq> []"
    using newline_terminated_last [of "v # va"] by simp
  have "newline_terminated (l # v # va) = (l @ [LF]) @ newline_terminated (v # va)"
    by (simp add: newline_terminated_def)
  then have "butlast (newline_terminated (l # v # va))
          = (l @ [LF]) @ butlast (newline_terminated (v # va))"
    using ne by (simp only: butlast_append if_False)
  with "3.IH" show ?case by simp
qed

lemma strip_newline_terminated:
  "strip_trailing_newline (newline_terminated ls) = join_lines ls"
proof (cases "ls = []")
  case True
  then show ?thesis by (simp add: strip_trailing_newline_def newline_terminated_def)
next
  case False
  with newline_terminated_last [OF False] butlast_newline_terminated [OF False]
  show ?thesis by (simp add: strip_trailing_newline_def)
qed

section \<open>The constructor of Request, end to end\<close>

lemma extractUrlComponents_frame:
  assumes "extractUrlComponents u r = Inr r'"
  shows "url r' = url r \<and> method_req r' = method_req r \<and> path r' = path r \<and> body r' = body r \<and>
         headers r' = headers r \<and> query r' = query r"
  using assms
  by (auto simp: extractUrlComponents_def set_host_port_def Let_def
      split: option.splits sum.splits if_splits)

lemma parse_path_query_eq:
  "parse_path_query r =
     (if CHR ''?'' \<in> set (url r)
      then r\<lparr>path := takeWhile (\<lambda>c. c \<noteq> CHR ''?'') (url r),
             query := query r ++ last_wins (key_value_pairs (CHR ''='')
                        (split_on (CHR ''&'') (drop 1 (dropWhile (\<lambda>c. c \<noteq> CHR ''?'') (url r)))))\<rparr>
      else r\<lparr>path := url r\<rparr>)"
  by (simp add: parse_path_query_def find_char_0 parseQueryParams_eq substr_takeWhile
      substr_from_dropWhile)

lemma extract_word_no_space:
  "extract_word x = Some (w, rest) \<Longrightarrow> \<forall>c\<in>set w. \<not> isspace c"
  by (auto simp: extract_word_def Let_def split: if_splits dest: set_takeWhileD)

lemma read_request_line_frame:
  assumes "read_request_line s r = (r2, rs)"
  shows "path r2 = path r \<and> body r2 = body r \<and> headers r2 = headers r \<and> query r2 = query r"
  using assms
  by (auto simp: read_request_line_def Let_def split: option.splits prod.splits)

lemma read_request_line_url:
  assumes "read_request_line s r = (r2, rs)" and "\<forall>c\<in>set (url r). \<not> isspace c"
  shows "\<forall>c\<in>set (url r2). \<not> isspace c"
  using assms
  by (auto simp: read_request_line_def Let_def split: option.splits prod.splits
      dest: extract_word_no_space)

lemma read_request_line_stream:
  assumes "read_request_line s r = (r2, rs)"
  shows "split_on LF rs = drop 1 (split_on LF s)"
  using assms
  by (auto simp: read_request_line_def Let_def split_on_getline [of _ s]
      split: option.splits prod.splits)

lemma strip_after_body_loop:
  "(if newline_terminated ls \<noteq> [] then butlast (newline_terminated ls) else newline_terminated ls)
     = strip_trailing_newline (newline_terminated ls)"
proof (cases "ls = []")
  case True
  then show ?thesis by (simp add: strip_trailing_newline_def newline_terminated_def)
next
  case False
  from newline_terminated_last [OF False] show ?thesis
    by (simp add: strip_trailing_newline_def)
qed

lemma parse_path_query_frame:
  "url (parse_path_query r) = url r \<and> body (parse_path_query r) = body r \<and>
   headers (parse_path_query r) = headers r"
  by (simp add: parse_path_query_eq)

lemma Request_ctor_Inr:
  assumes "Request_ctor s = Inr r"
  shows "url r = url (fst (read_request_line s (Request_init 0)))"
    and "\<forall>c\<in>set (url r). \<not> isspace c"
    and "path r = (if CHR ''?'' \<in> set (url r)
                   then takeWhile (\<lambda>c. c \<noteq> CHR ''?'') (url r) else url r)"
    and "query r = (if CHR ''?'' \<in> set (url r)
                    then last_wins (key_value_pairs (CHR ''='')
                           (split_on (CHR ''&'') (drop 1 (dropWhile (\<lambda>c. c \<noteq> CHR ''?'') (url r)))))
                    else Map.empty)"
    and "headers r =
           last_wins (key_value_pairs (CHR '':'')
             (takeWhile (\<lambda>l. l \<noteq> []) (drop 1 (split_on LF s))))"
    and "body r =
           strip_trailing_newline (newline_terminated
             (drop 1 (dropWhile (\<lambda>l. l \<noteq> []) (drop 1 (split_on LF s)))))"
proof -
  let ?r0 = "Request_init 0"
  obtain r2 rs where rl: "read_request_line s ?r0 = (r2, rs)"
    by (cases "read_request_line s ?r0")
  define r4 where "r4 = (\<lambda>r3. parse_path_query r3)"
  define r5 where "r5 = (\<lambda>r3. fst (header_loop rs (r4 r3)))"
  define bs where "bs = (\<lambda>r3. snd (header_loop rs (r4 r3)))"
  define r6 where "r6 = (\<lambda>r3. body_loop (bs r3) (r5 r3))"
  from assms rl obtain r3 where
    ex: "extractUrlComponents (url r2) r2 = Inr r3" and
    r: "r = (if body (r6 r3) \<noteq> [] then (r6 r3)\<lparr>body := butlast (body (r6 r3))\<rparr> else r6 r3)"
    by (auto simp: Request_ctor_def parseRequest_def Let_def split_beta r4_def r5_def bs_def
        r6_def split: sum.splits)
  have f2: "path r2 = [] \<and> body r2 = [] \<and> headers r2 = Map.empty \<and> query r2 = Map.empty"
    using read_request_line_frame [OF rl] by (simp add: Request_init_def)
  have u2: "\<forall>c\<in>set (url r2). \<not> isspace c"
    using read_request_line_url [OF rl] by (simp add: Request_init_def)
  note f3 = extractUrlComponents_frame [OF ex]
  have lines_rs: "split_on LF rs = drop 1 (split_on LF s)"
    by (rule read_request_line_stream [OF rl])
  have h4: "headers (r4 r3) = Map.empty" and b4: "body (r4 r3) = []"
    using f2 f3 by (simp_all add: r4_def parse_path_query_frame)
  define hl where "hl = takeWhile (\<lambda>l. l \<noteq> []) (drop 1 (split_on LF s))"
  define bl where "bl = drop 1 (dropWhile (\<lambda>l. l \<noteq> []) (drop 1 (split_on LF s)))"
  have r5_eq: "r5 r3 = (r4 r3)\<lparr>headers := last_wins (key_value_pairs (CHR '':'') hl)\<rparr>"
    unfolding r5_def header_loop_fst h4 lines_rs hl_def by simp
  have lines_bs: "split_on LF (bs r3) = bl"
    unfolding bs_def header_loop_snd lines_rs bl_def by simp
  have r6_eq: "r6 r3 = (r5 r3)\<lparr>body := newline_terminated bl\<rparr>"
    unfolding r6_def body_loop_eq lines_bs using b4 by (simp add: r5_eq)
  have "body r = (if newline_terminated bl \<noteq> [] then butlast (newline_terminated bl)
                  else newline_terminated bl)"
    by (simp add: r r6_eq)
  also have "\<dots> = strip_trailing_newline (newline_terminated bl)"
    by (rule strip_after_body_loop)
  finally have body_r: "body r = strip_trailing_newline (newline_terminated
      (drop 1 (dropWhile (\<lambda>l. l \<noteq> []) (drop 1 (split_on LF s)))))"
    unfolding bl_def .
  have "headers r = last_wins (key_value_pairs (CHR '':'') hl)"
    by (simp add: r r6_eq r5_eq)
  then have headers_r: "headers r = last_wins (key_value_pairs (CHR '':'')
                 (takeWhile (\<lambda>l. l \<noteq> []) (drop 1 (split_on LF s))))"
    unfolding hl_def .
  have rest: "url r = url r3 \<and> path r = path (parse_path_query r3) \<and>
              query r = query (parse_path_query r3)"
    by (simp add: r r6_eq r5_eq r4_def parse_path_query_frame)
  have u3: "url r3 = url r2" and q3: "query r3 = Map.empty"
    using f2 f3 by simp_all
  from rest u3 rl show "url r = url (fst (read_request_line s (Request_init 0)))"
    by simp
  from rest u3 u2 show "\<forall>c\<in>set (url r). \<not> isspace c"
    by simp
  from rest show "path r = (if CHR ''?'' \<in> set (url r)
                   then takeWhile (\<lambda>c. c \<noteq> CHR ''?'') (url r) else url r)"
    by (simp add: parse_path_query_eq)
  from rest q3 show "query r = (if CHR ''?'' \<in> set (url r)
                    then last_wins (key_value_pairs (CHR ''='')
                           (split_on (CHR ''&'') (drop 1 (dropWhile (\<lambda>c. c \<noteq> CHR ''?'') (url r)))))
                    else Map.empty)"
    by (simp add: parse_path_query_eq)
  from headers_r show "headers r =
           last_wins (key_value_pairs (CHR '':'')
             (takeWhile (\<lambda>l. l \<noteq> []) (drop 1 (split_on LF s))))" .
  from body_r show "body r =
           strip_trailing_newline (newline_terminated
             (drop 1 (dropWhile (\<lambda>l. l \<noteq> []) (drop 1 (split_on LF s)))))" .
qed

lemma Request_ctor_isl:
  "isl (Request_ctor s) =
     isl (extractUrlComponents (url (fst (read_request_line s (Request_init 0))))
            (fst (read_request_line s (Request_init 0))))"
  by (simp add: Request_ctor_def parseRequest_def Let_def split_beta split: sum.splits)

lemma Request_ctor_projr: "\<not> isl (Request_ctor s) \<Longrightarrow> Request_ctor s = Inr (projr (Request_ctor s))"
  by (cases "Request_ctor s") simp_all

lemmas request_line_eval = read_request_line_def getline_def extract_word_def isspace_def
  Request_init_def

lemmas url_eval = extractUrlComponents_def find_char_def set_host_port_def stoi_def isdigit_def
  substr_def substr_from_def decimal_def digit_val_def INT_MAX_def INT_MIN_def

lemmas pairs_eval = last_wins_def key_value_pairs_def trim_spaces_def

lemma example_request_ok: "\<not> isl (Request_ctor example_request)"
  by (simp add: Request_ctor_isl example_request_def request_line_eval url_eval)

lemma example_request_lines: "split_on LF example_request = [''POST /p HTTP/1.1'', ''Host: a'', ''nocolon'', ''Host : b '', [], ''l1'', ''l2'']"
  by (simp add: example_request_def)

lemma crlf_request_ok: "\<not> isl (Request_ctor crlf_request)"
  by (simp add: Request_ctor_isl crlf_request_def request_line_eval url_eval crlf_def)

lemma crlf_request_lines:
  "split_on LF crlf_request =
     [''POST /p HTTP/1.1'' @ [CR], ''Host: x'' @ [CR], ''Content-Length: 3'' @ [CR], [CR], ''k:v'']"
  by (simp add: crlf_request_def crlf_def)

lemma plain_query_request_ok: "\<not> isl (Request_ctor plain_query_request)"
  by (simp add: Request_ctor_isl plain_query_request_def request_line_eval url_eval crlf_def)

lemma plain_query_request_url:
  "url (fst (read_request_line plain_query_request (Request_init 0))) = ''/search?q=test&x=y&q=last''"
  by (simp add: plain_query_request_def request_line_eval crlf_def)

section \<open>The components of the URL\<close>

text \<open>
  \<open>by_index\<close> selects host and port text the way \<open>extractUrlComponents\<close> does, by the
  positions of the first colon and the first slash.
\<close>

fun by_index :: "string \<Rightarrow> string \<times> string option" where
  "by_index rest =
     (case index_of (CHR '':'') rest of
        Some i \<Rightarrow>
          (case index_of (CHR ''/'') rest of
             None \<Rightarrow> (take i rest, Some (drop (Suc i) rest))
           | Some j \<Rightarrow>
               if i < j then (take i rest, Some (take (j - i - 1) (drop (Suc i) rest)))
               else (take j rest, None))
      | None \<Rightarrow>
          (case index_of (CHR ''/'') rest of
             Some j \<Rightarrow> (take j rest, None)
           | None \<Rightarrow> (rest, None)))"

lemma takeWhile_all: "c \<notin> set xs \<Longrightarrow> takeWhile (\<lambda>x. x \<noteq> c) xs = xs"
  by (induction xs) auto

lemma by_index_eq: "by_index rest = host_and_port_text rest"
proof (induction rest)
  case Nil
  show ?case by (simp add: host_and_port_text_def)
next
  case (Cons x xs)
  consider "x = CHR '':''" | "x = CHR ''/''" | "x \<noteq> CHR '':''" "x \<noteq> CHR ''/''" by blast
  then show ?case
  proof cases
    case 1
    then show ?thesis
      by (simp add: host_and_port_text_def host_end_def index_of_eq takeWhile_all
          takeWhile_eq_take [symmetric])
  next
    case 2
    then show ?thesis
      by (simp add: host_and_port_text_def host_end_def index_of_eq split: option.splits)
  next
    case 3
    from Cons.IH 3 show ?thesis
      by (auto simp: host_and_port_text_def host_end_def split: option.splits if_splits)
  qed
qed

lemma extractUrlComponents_by_index:
  "extractUrlComponents u r =
     (let r1 = (if prefix ''https://'' u
                then r\<lparr>protocol := ''HTTPS'', port := 443\<rparr>
                else r\<lparr>protocol := ''HTTP'', port := 80\<rparr>)
      in case by_index (after_scheme u) of
           (h, None) \<Rightarrow> Inr (r1\<lparr>host := h\<rparr>)
         | (h, Some pt) \<Rightarrow> set_host_port r1 h pt)"
proof -
  define hs where "hs = (case find_str u ''://'' of Some e \<Rightarrow> e + 3 | None \<Rightarrow> 0)"
  have rest: "after_scheme u = drop hs u"
    by (simp add: after_scheme_def hs_def split: option.splits)
  have "extractUrlComponents u r =
     (let r1 = (if prefix ''https://'' u
                then r\<lparr>protocol := ''HTTPS'', port := 443\<rparr>
                else r\<lparr>protocol := ''HTTP'', port := 80\<rparr>)
      in case by_index (drop hs u) of
           (h, None) \<Rightarrow> Inr (r1\<lparr>host := h\<rparr>)
         | (h, Some pt) \<Rightarrow> set_host_port r1 h pt)"
    by (cases "index_of (CHR '':'') (drop hs u)"; cases "index_of (CHR ''/'') (drop hs u)")
       (simp_all add: extractUrlComponents_def find_str_prefix find_char_def Let_def
          hs_def [symmetric] substr_def substr_from_def ac_simps)
  then show ?thesis by (simp only: rest)
qed

lemma isdigit_plain: "isdigit c \<Longrightarrow> \<not> isspace c \<and> c \<noteq> CHR ''-'' \<and> c \<noteq> CHR ''+''"
  by (auto simp: isdigit_def isspace_def)

lemma stoi_digits:
  assumes "ds \<noteq> []" and "list_all isdigit ds" and "int (decimal ds) \<le> INT_MAX"
  shows "stoi ds = Inr (int (decimal ds))"
proof -
  from assms(1) obtain c cs where ds: "ds = c # cs" by (cases ds) auto
  with assms(2) have c: "isdigit c" by simp
  note p = isdigit_plain [OF c]
  have dw: "dropWhile isspace ds = ds" using p by (simp add: ds)
  have tw: "takeWhile isdigit ds = ds"
    using assms(2) by (simp add: takeWhile_eq_all_conv list_all_iff)
  have "INT_MIN \<le> int (decimal ds)" by (simp add: INT_MIN_def)
  with assms(3) tw show ?thesis
    unfolding stoi_def dw using p by (simp add: ds Let_def)
qed

section \<open>The claims\<close>

subsection \<open>Accessors of Request\<close>

text \<open>
  Claim C10. For a key that the header mapping does not hold \<open>getHeader\<close> returns the
  empty string, and for a key that the query mapping does not hold \<open>queryParam\<close> returns
  the empty string; for a key that is present each returns the stored value. Both are
  \<^verbatim>\<open>const\<close> members, here functions of the request that return a string only.
\<close>

theorem C10_accessors_default_empty:
  "(headers r key = None \<longrightarrow> getHeader r key = []) \<and>
   (query r key = None \<longrightarrow> queryParam r key = []) \<and>
   (\<forall>v. headers r key = Some v \<longrightarrow> getHeader r key = v) \<and>
   (\<forall>v. query r key = Some v \<longrightarrow> queryParam r key = v)"
  by (simp add: getHeader_def queryParam_def)

theorem C10_accessors_default_empty_witness:
  "headers (Request_init 0) ''Host'' = None \<and> getHeader (Request_init 0) ''Host'' = [] \<and>
   query (Request_init 0) ''q'' = None \<and> queryParam (Request_init 0) ''q'' = []"
  using C10_accessors_default_empty [of "Request_init 0" "''Host''"]
    C10_accessors_default_empty [of "Request_init 0" "''q''"]
  by (simp add: Request_init_def)

subsection \<open>sendFile on a file that cannot be opened\<close>

lemma to_string_14: "to_string 14 = ''14''"
  by (simp add: to_string.simps)

lemma to_string_length_File_not_found: "to_string (length ''File not found'') = ''14''"
proof -
  have "length ''File not found'' = (14::nat)" by simp
  then show ?thesis by (simp only: to_string_14)
qed

text \<open>
  Claim C9. When the file at \<open>filePath\<close> cannot be opened, \<open>sendFile\<close> sets the body to
  the text \<open>File not found\<close> and leaves the status code as it was; the header
  \<open>Content-Type\<close> becomes \<open>text/html\<close>, \<open>Content-Length\<close> is the decimal length of the new
  body (14), and every other header is unchanged.
\<close>

theorem C9_sendFile_unopenable:
  assumes "fs filePath = None"
  shows "body_res (sendFile fs filePath res) = ''File not found'' \<and>
         statusCode (sendFile fs filePath res) = statusCode res \<and>
         headers_res (sendFile fs filePath res) ''Content-Type'' = Some ''text/html'' \<and>
         headers_res (sendFile fs filePath res) ''Content-Length''
           = Some (to_string (length (body_res (sendFile fs filePath res)))) \<and>
         headers_res (sendFile fs filePath res) ''Content-Length'' = Some ''14'' \<and>
         (\<forall>k. k \<noteq> ''Content-Type'' \<and> k \<noteq> ''Content-Length'' \<longrightarrow>
              headers_res (sendFile fs filePath res) k = headers_res res k)"
proof -
  let ?res' = "sendFile fs filePath res"
  have b: "body_res ?res' = ''File not found''"
    using assms by (simp add: sendFile_def readFile_def setHeader_def Let_def)
  have st: "statusCode ?res' = statusCode res"
    by (simp add: sendFile_def setHeader_def Let_def)
  have ct: "headers_res ?res' ''Content-Type'' = Some ''text/html''"
    by (simp add: sendFile_def setHeader_def Let_def)
  have cl: "headers_res ?res' ''Content-Length'' = Some (to_string (length (body_res ?res')))"
    by (simp add: sendFile_def setHeader_def Let_def)
  have cl14: "headers_res ?res' ''Content-Length'' = Some ''14''"
    unfolding cl b by (simp only: to_string_length_File_not_found)
  have others: "\<forall>k. k \<noteq> ''Content-Type'' \<and> k \<noteq> ''Content-Length'' \<longrightarrow>
                  headers_res ?res' k = headers_res res k"
    by (simp add: sendFile_def setHeader_def Let_def)
  from b st ct cl cl14 others show ?thesis by blast
qed

theorem C9_sendFile_unopenable_witness:
  "body_res (sendFile Map.empty ''index.html'' (status 500 Response_ctor)) = ''File not found'' \<and>
   statusCode (sendFile Map.empty ''index.html'' (status 500 Response_ctor)) = 500 \<and>
   headers_res (sendFile Map.empty ''index.html'' (status 500 Response_ctor)) ''Content-Length''
     = Some ''14''"
proof -
  have h: "(Map.empty :: string \<rightharpoonup> string) ''index.html'' = None"
    by simp
  have s: "statusCode (status 500 Response_ctor) = 500"
    by (simp add: status_def Response_ctor_def)
  from C9_sendFile_unopenable [of Map.empty "''index.html''" "status 500 Response_ctor", OF h] s
  show ?thesis by metis
qed

subsection \<open>enqueue and the stop flag\<close>

text \<open>
  Claim C1 says that \<open>enqueue\<close> fails with \<open>PoolStopped\<close> once the pool is stopping and
  never appends the task. On a pool whose stop flag is set, \<open>enqueue\<close> does not fail and
  the task is at the back of the queue.
\<close>

theorem C1_counterexample:
  "stop \<lparr>tasks = [1::nat], stop = True\<rparr> \<and>
   enqueue 2 \<lparr>tasks = [1::nat], stop = True\<rparr> \<noteq> Inl PoolStopped \<and>
   enqueue 2 \<lparr>tasks = [1::nat], stop = True\<rparr> = Inr \<lparr>tasks = [1, 2], stop = True\<rparr>"
  by (simp add: enqueue_def)

text \<open>
  Claim C1, amended. For every pool, whatever its stop flag, \<open>enqueue\<close> does not fail:
  it appends the task at the back of the queue and leaves the stop flag as it was.
\<close>

theorem C1_enqueue_never_fails:
  "\<exists>pool'. enqueue f pool = Inr pool' \<and> tasks pool' = tasks pool @ [f] \<and> stop pool' = stop pool"
  by (simp add: enqueue_def)

subsection \<open>A request whose port is not a number\<close>

lemmas parse_eval_defs = Request_ctor_def parseRequest_def read_request_line_def getline_def
  extract_word_def
  isspace_def extractUrlComponents_def find_char_def set_host_port_def stoi_def isdigit_def
  substr_def substr_from_def Request_init_def

text \<open>
  Claim C2 says that constructing a \<open>Request\<close> never raises, also when the URL has a colon
  followed by text that is not a number, or by nothing, before the first slash. At such
  request lines \<^verbatim>\<open>std::stoi\<close> throws \<^verbatim>\<open>std::invalid_argument\<close>, the constructor does not
  return, and \<open>handleRequest\<close> ends with the exception uncaught.
\<close>

theorem C2_parse_raises:
  "Request_ctor (''GET localhost:abc/ HTTP/1.1'' @ crlf @ crlf) = Inl invalid_argument \<and>
   Request_ctor (''GET localhost:/ HTTP/1.1'' @ crlf @ crlf) = Inl invalid_argument \<and>
   handleRequest app (Some (''GET localhost:abc/ HTTP/1.1'' @ crlf @ crlf))
     = Uncaught invalid_argument"
  apply (intro conjI)
    apply (simp add: parse_eval_defs crlf_def)
   apply (simp add: parse_eval_defs crlf_def)
  apply (simp add: handleRequest_def fill_buffer_def BUFFER_SIZE_def Let_def crlf_def
      takeWhile_append)
  apply (simp add: parse_eval_defs)
  done

subsection \<open>Headers and body\<close>

text \<open>
  What the two loops do, for every raw request that the constructor accepts, with its
  lines the pieces between newlines (a carriage return is a character of its line): of the
  lines after the request line, those before the first empty line are the header lines;
  each header line that holds a colon is split at its first colon, both sides are trimmed
  of spaces, and a later line replaces an earlier one with the same key; a header line
  without a colon adds nothing. The lines after that empty line, each followed by a
  newline, with one trailing newline removed, are the body, which is those lines joined
  by newlines.
\<close>

lemma headers_and_body_of_lines:
  assumes "Request_ctor s = Inr r"
  shows "headers r =
           last_wins (key_value_pairs (CHR '':'')
             (takeWhile (\<lambda>l. l \<noteq> []) (drop 1 (split_on LF s)))) \<and>
         body r =
           strip_trailing_newline (newline_terminated
             (drop 1 (dropWhile (\<lambda>l. l \<noteq> []) (drop 1 (split_on LF s))))) \<and>
         body r = join_lines (drop 1 (dropWhile (\<lambda>l. l \<noteq> []) (drop 1 (split_on LF s))))"
  using Request_ctor_Inr(5,6) [OF assms] by (simp add: strip_newline_terminated)

lemma example_request_parsed:
  "\<not> isl (Request_ctor example_request) \<and>
   headers (projr (Request_ctor example_request)) ''Host'' = Some ''b'' \<and>
   headers (projr (Request_ctor example_request)) ''nocolon'' = None \<and>
   body (projr (Request_ctor example_request)) = ''l1'' @ [LF] @ ''l2''"
  using headers_and_body_of_lines [OF Request_ctor_projr [OF example_request_ok]]
    example_request_ok
  by (simp add: example_request_lines pairs_eval strip_trailing_newline_def newline_terminated_def)

text \<open>
  Claim C7 says that the lines after the request line up to the first blank line are the
  headers, trimmed on both sides, and that the lines after the blank line are the body.
  In a request whose lines end with CR LF, as HTTP/1.1 sends them and as \<open>toHttpResponse\<close>
  writes them, the line between headers and body holds a carriage return, and the header
  loop, which tests \<^verbatim>\<open>headerLine.empty()\<close>, does not take it for blank. At the request
  \<^verbatim>\<open>POST /p HTTP/1.1\<close>, \<^verbatim>\<open>Host: x\<close>, \<^verbatim>\<open>Content-Length: 3\<close>, a blank line and the body \<^verbatim>\<open>k:v\<close>
  the loop runs on to the end of the text: the body of the request is empty, the body
  line is stored as the header \<open>k\<close>, and the header values keep their carriage return.
\<close>

theorem C7_crlf_request_body_lost:
  "\<not> isl (Request_ctor crlf_request) \<and>
   body (projr (Request_ctor crlf_request)) = [] \<and>
   body (projr (Request_ctor crlf_request)) \<noteq> ''k:v'' \<and>
   headers (projr (Request_ctor crlf_request)) ''k'' = Some ''v'' \<and>
   headers (projr (Request_ctor crlf_request)) ''Host'' = Some (''x'' @ [CR]) \<and>
   headers (projr (Request_ctor crlf_request)) ''Content-Length'' = Some (''3'' @ [CR])"
proof -
  let ?r = "projr (Request_ctor crlf_request)"
  note ex = Request_ctor_projr [OF crlf_request_ok]
  have h: "headers ?r = last_wins (key_value_pairs (CHR '':'')
             [''Host: x'' @ [CR], ''Content-Length: 3'' @ [CR], [CR], ''k:v''])"
    using Request_ctor_Inr(5) [OF ex] by (simp add: crlf_request_lines)
  have b: "body ?r = []"
    using Request_ctor_Inr(6) [OF ex]
    by (simp add: crlf_request_lines strip_trailing_newline_def newline_terminated_def)
  have "headers ?r ''k'' = Some ''v''"
    unfolding h by (simp add: pairs_eval)
  moreover have "headers ?r ''Host'' = Some (''x'' @ [CR])"
    unfolding h by (simp add: pairs_eval)
  moreover have "headers ?r ''Content-Length'' = Some (''3'' @ [CR])"
    unfolding h by (simp add: pairs_eval)
  ultimately show ?thesis using crlf_request_ok b by simp
qed

subsection \<open>Path and query\<close>

text \<open>
  Claim C6. For every URL: when it holds \<^verbatim>\<open>?\<close>, the path is the text before the first
  \<^verbatim>\<open>?\<close>, and the text after it is split on \<^verbatim>\<open>&\<close>, each piece that holds \<^verbatim>\<open>=\<close> is split at
  its first \<^verbatim>\<open>=\<close>, both sides are trimmed of spaces and the pair is put into the query
  mapping, a later pair replacing an earlier one with the same key; without \<^verbatim>\<open>?\<close> the
  path is the whole URL and the query mapping is left as it was. Parsing the URL
  \<^verbatim>\<open>/search?q=test&x= y \<close> with an empty query mapping yields \<open>test\<close> for \<open>q\<close> and \<open>y\<close> for
  \<open>x\<close>. In a request that the constructor accepts the query mapping starts empty, so
  that with \<^verbatim>\<open>?\<close> it holds the pairs of the query string only, and without \<^verbatim>\<open>?\<close> it is
  empty and the path is the whole URL.
\<close>

theorem C6_query_of_url:
  "(CHR ''?'' \<in> set (url r) \<longrightarrow>
      path (parse_path_query r) = takeWhile (\<lambda>c. c \<noteq> CHR ''?'') (url r) \<and>
      query (parse_path_query r) =
        query r ++ last_wins (key_value_pairs (CHR ''='')
          (split_on (CHR ''&'') (drop 1 (dropWhile (\<lambda>c. c \<noteq> CHR ''?'') (url r)))))) \<and>
   (CHR ''?'' \<notin> set (url r) \<longrightarrow>
      path (parse_path_query r) = url r \<and> query (parse_path_query r) = query r) \<and>
   query (parse_path_query (r\<lparr>url := ''/search?q=test&x= y '', query := Map.empty\<rparr>)) ''q''
     = Some ''test'' \<and>
   query (parse_path_query (r\<lparr>url := ''/search?q=test&x= y '', query := Map.empty\<rparr>)) ''x''
     = Some ''y'' \<and>
   queryParam (parse_path_query (r\<lparr>url := ''/search?q=test&x= y '', query := Map.empty\<rparr>)) ''q''
     = ''test'' \<and>
   queryParam (parse_path_query (r\<lparr>url := ''/search?q=test&x= y '', query := Map.empty\<rparr>)) ''x''
     = ''y'' \<and>
   (\<forall>s r'. Request_ctor s = Inr r' \<longrightarrow>
      (CHR ''?'' \<in> set (url r') \<longrightarrow>
         path r' = takeWhile (\<lambda>c. c \<noteq> CHR ''?'') (url r') \<and>
         query r' = last_wins (key_value_pairs (CHR ''='')
           (split_on (CHR ''&'') (drop 1 (dropWhile (\<lambda>c. c \<noteq> CHR ''?'') (url r')))))) \<and>
      (CHR ''?'' \<notin> set (url r') \<longrightarrow> path r' = url r' \<and> query r' = Map.empty))"
proof -
  let ?e = "parse_path_query (r\<lparr>url := ''/search?q=test&x= y '', query := Map.empty\<rparr>)"
  have step: "(CHR ''?'' \<in> set (url r) \<longrightarrow>
      path (parse_path_query r) = takeWhile (\<lambda>c. c \<noteq> CHR ''?'') (url r) \<and>
      query (parse_path_query r) =
        query r ++ last_wins (key_value_pairs (CHR ''='')
          (split_on (CHR ''&'') (drop 1 (dropWhile (\<lambda>c. c \<noteq> CHR ''?'') (url r)))))) \<and>
   (CHR ''?'' \<notin> set (url r) \<longrightarrow>
      path (parse_path_query r) = url r \<and> query (parse_path_query r) = query r)"
    by (simp add: parse_path_query_eq)
  have q: "query ?e ''q'' = Some ''test''"
    by (simp add: parse_path_query_eq pairs_eval)
  have x: "query ?e ''x'' = Some ''y''"
    by (simp add: parse_path_query_eq pairs_eval)
  have qp: "queryParam ?e ''q'' = ''test''" "queryParam ?e ''x'' = ''y''"
    by (simp_all add: queryParam_def q x)
  have ctor: "\<forall>s r'. Request_ctor s = Inr r' \<longrightarrow>
      (CHR ''?'' \<in> set (url r') \<longrightarrow>
         path r' = takeWhile (\<lambda>c. c \<noteq> CHR ''?'') (url r') \<and>
         query r' = last_wins (key_value_pairs (CHR ''='')
           (split_on (CHR ''&'') (drop 1 (dropWhile (\<lambda>c. c \<noteq> CHR ''?'') (url r')))))) \<and>
      (CHR ''?'' \<notin> set (url r') \<longrightarrow> path r' = url r' \<and> query r' = Map.empty)"
  proof (intro allI impI)
    fix s r' assume a: "Request_ctor s = Inr r'"
    note f = Request_ctor_Inr [OF a]
    from f(3,4) show "(CHR ''?'' \<in> set (url r') \<longrightarrow>
         path r' = takeWhile (\<lambda>c. c \<noteq> CHR ''?'') (url r') \<and>
         query r' = last_wins (key_value_pairs (CHR ''='')
           (split_on (CHR ''&'') (drop 1 (dropWhile (\<lambda>c. c \<noteq> CHR ''?'') (url r')))))) \<and>
      (CHR ''?'' \<notin> set (url r') \<longrightarrow> path r' = url r' \<and> query r' = Map.empty)"
      by simp
  qed
  from step q x qp ctor show ?thesis by blast
qed

theorem C6_query_of_url_witness:
  "path (parse_path_query ((Request_init 0)\<lparr>url := ''/search?q=test&x= y &q= last''\<rparr>))
     = ''/search'' \<and>
   query (parse_path_query ((Request_init 0)\<lparr>url := ''/search?q=test&x= y &q= last''\<rparr>)) ''q''
     = Some ''last'' \<and>
   query (parse_path_query ((Request_init 0)\<lparr>url := ''/search?q=test&x= y &q= last''\<rparr>)) ''x''
     = Some ''y'' \<and>
   path (parse_path_query ((Request_init 0)\<lparr>url := ''/index.html''\<rparr>)) = ''/index.html'' \<and>
   query (parse_path_query ((Request_init 0)\<lparr>url := ''/index.html''\<rparr>)) = Map.empty \<and>
   \<not> isl (Request_ctor plain_query_request) \<and>
   path (projr (Request_ctor plain_query_request)) = ''/search'' \<and>
   query (projr (Request_ctor plain_query_request)) ''q'' = Some ''last'' \<and>
   query (projr (Request_ctor plain_query_request)) ''x'' = Some ''y''"
proof -
  let ?a = "(Request_init 0)\<lparr>url := ''/search?q=test&x= y &q= last''\<rparr>"
  let ?b = "(Request_init 0)\<lparr>url := ''/index.html''\<rparr>"
  let ?r = "projr (Request_ctor plain_query_request)"
  have ua: "url ?a = ''/search?q=test&x= y &q= last''" and qa: "query ?a = Map.empty"
    and ub: "url ?b = ''/index.html''" and qb: "query ?b = Map.empty"
    by (simp_all add: Request_init_def)
  from C6_query_of_url [of ?a] have
    "path (parse_path_query ?a) = takeWhile (\<lambda>c. c \<noteq> CHR ''?'') (url ?a) \<and>
     query (parse_path_query ?a) =
        query ?a ++ last_wins (key_value_pairs (CHR ''='')
          (split_on (CHR ''&'') (drop 1 (dropWhile (\<lambda>c. c \<noteq> CHR ''?'') (url ?a)))))"
    unfolding ua by simp
  then have a: "path (parse_path_query ?a) = ''/search''"
    "query (parse_path_query ?a) ''q'' = Some ''last''"
    "query (parse_path_query ?a) ''x'' = Some ''y''"
    unfolding ua qa by (simp_all add: pairs_eval)
  from C6_query_of_url [of ?b] have
    "path (parse_path_query ?b) = url ?b \<and> query (parse_path_query ?b) = query ?b"
    unfolding ub by simp
  then have b: "path (parse_path_query ?b) = ''/index.html''"
    "query (parse_path_query ?b) = Map.empty"
    unfolding ub qb by simp_all
  note ex = Request_ctor_projr [OF plain_query_request_ok]
  have u: "url ?r = ''/search?q=test&x=y&q=last''"
    using Request_ctor_Inr(1) [OF ex] by (simp only: plain_query_request_url)
  from C6_query_of_url [of ?a] ex have
    "CHR ''?'' \<in> set (url ?r) \<longrightarrow>
       path ?r = takeWhile (\<lambda>c. c \<noteq> CHR ''?'') (url ?r) \<and>
       query ?r = last_wins (key_value_pairs (CHR ''='')
                   (split_on (CHR ''&'') (drop 1 (dropWhile (\<lambda>c. c \<noteq> CHR ''?'') (url ?r)))))"
    by blast
  then have c: "path ?r = ''/search''" "query ?r ''q'' = Some ''last''"
    "query ?r ''x'' = Some ''y''"
    unfolding u by (simp_all add: pairs_eval)
  from a b c plain_query_request_ok show ?thesis by simp
qed

subsection \<open>Scheme, host and port\<close>

text \<open>
  Claim C8. For every URL: the protocol is HTTPS with default port 443 when the URL
  starts with \<^verbatim>\<open>https://\<close> and HTTP with default port 80 otherwise; the host is the text
  from behind the scheme separator (or from position 0) up to the first colon or slash,
  whichever comes first; when that character is a colon, the port is the number that
  \<^verbatim>\<open>std::stoi\<close> reads from the text between it and the next slash (an exception of
  \<^verbatim>\<open>std::stoi\<close> leaves the function), and otherwise the port is the default. For a text
  of digits whose value fits an \<^verbatim>\<open>int\<close> that number is the value of the digits.
\<close>

theorem C8_url_components:
  "extractUrlComponents u r =
     (let secure = prefix ''https://'' u;
          proto = (if secure then ''HTTPS'' else ''HTTP'');
          default_port = (if secure then 443 else 80);
          rest = after_scheme u;
          h = takeWhile (\<lambda>c. \<not> host_end c) rest
      in case dropWhile (\<lambda>c. \<not> host_end c) rest of
           [] \<Rightarrow> Inr (r\<lparr>protocol := proto, host := h, port := default_port\<rparr>)
         | c # pt \<Rightarrow>
             if c = CHR '':''
             then (case stoi (takeWhile (\<lambda>c. c \<noteq> CHR ''/'') pt) of
                     Inl e \<Rightarrow> Inl e
                   | Inr n \<Rightarrow> Inr (r\<lparr>protocol := proto, host := h, port := n\<rparr>))
             else Inr (r\<lparr>protocol := proto, host := h, port := default_port\<rparr>)) \<and>
   (\<forall>ds. ds \<noteq> [] \<and> list_all isdigit ds \<and> int (decimal ds) \<le> INT_MAX \<longrightarrow>
         stoi ds = Inr (int (decimal ds)))"
proof
  show "\<forall>ds. ds \<noteq> [] \<and> list_all isdigit ds \<and> int (decimal ds) \<le> INT_MAX \<longrightarrow>
         stoi ds = Inr (int (decimal ds))"
    by (simp add: stoi_digits)
  show "extractUrlComponents u r =
     (let secure = prefix ''https://'' u;
          proto = (if secure then ''HTTPS'' else ''HTTP'');
          default_port = (if secure then 443 else 80);
          rest = after_scheme u;
          h = takeWhile (\<lambda>c. \<not> host_end c) rest
      in case dropWhile (\<lambda>c. \<not> host_end c) rest of
           [] \<Rightarrow> Inr (r\<lparr>protocol := proto, host := h, port := default_port\<rparr>)
         | c # pt \<Rightarrow>
             if c = CHR '':''
             then (case stoi (takeWhile (\<lambda>c. c \<noteq> CHR ''/'') pt) of
                     Inl e \<Rightarrow> Inl e
                   | Inr n \<Rightarrow> Inr (r\<lparr>protocol := proto, host := h, port := n\<rparr>))
             else Inr (r\<lparr>protocol := proto, host := h, port := default_port\<rparr>))"
  proof (cases "dropWhile (\<lambda>c. \<not> host_end c) (after_scheme u)")
    case Nil
    show ?thesis
      unfolding extractUrlComponents_by_index by_index_eq host_and_port_text_def Let_def Nil
      by simp
  next
    case (Cons c pt)
    show ?thesis
    proof (cases "c = CHR '':''")
      case False
      then show ?thesis
        unfolding extractUrlComponents_by_index by_index_eq host_and_port_text_def Let_def Cons
        by simp
    next
      case True
      then show ?thesis
        unfolding extractUrlComponents_by_index by_index_eq host_and_port_text_def Let_def Cons
        by (cases "stoi (takeWhile (\<lambda>c. c \<noteq> CHR ''/'') pt)")
           (simp_all add: set_host_port_def)
    qed
  qed
qed

theorem C8_url_components_witness:
  "extractUrlComponents ''https://example.com:8443/a/b'' (Request_init 0)
     = Inr ((Request_init 0)\<lparr>protocol := ''HTTPS'', host := ''example.com'', port := 8443\<rparr>) \<and>
   extractUrlComponents ''example.com/a:b'' (Request_init 0)
     = Inr ((Request_init 0)\<lparr>protocol := ''HTTP'', host := ''example.com'', port := 80\<rparr>) \<and>
   stoi ''8443'' = Inr 8443"
proof -
  have a: "after_scheme ''https://example.com:8443/a/b'' = ''example.com:8443/a/b''"
    by (simp add: after_scheme_def)
  have b: "after_scheme ''example.com/a:b'' = ''example.com/a:b''"
    by (simp add: after_scheme_def)
  have s: "stoi ''8443'' = Inr 8443"
    by (simp add: stoi_def isspace_def isdigit_def decimal_def digit_val_def INT_MAX_def
        INT_MIN_def)
  from C8_url_components [of "''https://example.com:8443/a/b''" "Request_init 0"]
  have "extractUrlComponents ''https://example.com:8443/a/b'' (Request_init 0)
     = Inr ((Request_init 0)\<lparr>protocol := ''HTTPS'', host := ''example.com'', port := 8443\<rparr>)"
    by (simp add: a host_end_def s)
  moreover from C8_url_components [of "''example.com/a:b''" "Request_init 0"]
  have "extractUrlComponents ''example.com/a:b'' (Request_init 0)
     = Inr ((Request_init 0)\<lparr>protocol := ''HTTP'', host := ''example.com'', port := 80\<rparr>)"
    by (simp add: b host_end_def)
  ultimately show ?thesis using s by simp
qed

subsection \<open>Serialization of a Response\<close>

lemma header_line_sublist:
  assumes "k \<in> set ks" and "headers_res res k = Some v"
  shows "sublist (k @ '': '' @ v @ crlf) (toHttpResponse ks res)"
proof -
  from assms(1) obtain ks1 ks2 where ks: "ks = ks1 @ k # ks2"
    by (auto dest: split_list)
  have hl: "header_line res k = k @ '': '' @ v @ crlf"
    using assms(2) by (simp add: header_line_def)
  let ?pre = "''HTTP/1.1 '' @ show_int (statusCode res) @ '' '' @ getStatusMessage res @ crlf
              @ concat (map (header_line res) ks1)"
  let ?post = "concat (map (header_line res) ks2) @ crlf @ body_res res"
  have "toHttpResponse ks res = ?pre @ (k @ '': '' @ v @ crlf) @ ?post"
    by (simp add: toHttpResponse_def ks hl)
  then show ?thesis unfolding sublist_def by blast
qed

lemma header_lines_pairs:
  assumes "iteration_order ks res"
  shows "\<exists>hs. distinct (map fst hs) \<and> map_of hs = headers_res res \<and>
              concat (map (header_line res) ks) = concat (map (\<lambda>(k, v). k @ '': '' @ v @ crlf) hs)"
proof -
  let ?hs = "map (\<lambda>k. (k, the (headers_res res k))) ks"
  from assms have d: "distinct ks" and dom: "set ks = dom (headers_res res)"
    by (simp_all add: iteration_order_def)
  have fst: "map fst ?hs = ks" by (simp add: comp_def)
  have "map_of ?hs = headers_res res"
  proof
    fix k
    show "map_of ?hs k = headers_res res k"
    proof (cases "k \<in> set ks")
      case True
      with dom obtain v where "headers_res res k = Some v" by auto
      with True show ?thesis by (simp add: map_of_map_restrict)
    next
      case False
      with dom have "headers_res res k = None" by auto
      with False show ?thesis by (simp add: map_of_map_restrict)
    qed
  qed
  moreover have "concat (map (header_line res) ks)
                 = concat (map (\<lambda>(k, v). k @ '': '' @ v @ crlf) ?hs)"
  proof -
    have "\<forall>k\<in>set ks. header_line res k = k @ '': '' @ the (headers_res res k) @ crlf"
      using dom by (auto simp: header_line_def)
    then have m1: "map (header_line res) ks
                   = map (\<lambda>k. k @ '': '' @ the (headers_res res k) @ crlf) ks"
      by (intro map_cong) auto
    have m2: "map (\<lambda>(k, v). k @ '': '' @ v @ crlf) ?hs
              = map (\<lambda>k. k @ '': '' @ the (headers_res res k) @ crlf) ks"
      by (simp add: comp_def)
    show ?thesis unfolding m1 m2 by (rule refl)
  qed
  ultimately show ?thesis using d fst by (intro exI [of _ ?hs]) simp
qed

lemma show_int_400: "show_int 400 = ''400''"
  by (simp add: show_int_def to_string.simps)

lemma to_string_2: "to_string (Suc (Suc 0)) = ''2''"
  by (simp add: to_string.simps)

lemma example_response_fields:
  "statusCode example_response = 400"
  "body_res example_response = ''hi''"
  "headers_res example_response ''X'' = Some ''y''"
  "headers_res example_response ''Content-Type'' = Some ''text/plain''"
  "headers_res example_response ''Content-Length'' = Some ''2''"
  "dom (headers_res example_response) = {''X'', ''Content-Type'', ''Content-Length''}"
  by (auto simp: example_response_def send_def setHeader_def status_def Response_ctor_def
      Let_def to_string_2)

text \<open>
  Claim C4. For every response and every order in which the header mapping is iterated:
  the output is the status line \<^verbatim>\<open>HTTP/1.1 <code> <reason>\<close> and CRLF, then for each entry
  of the header mapping, once, the line \<^verbatim>\<open>Key: Value\<close> and CRLF, then CRLF, then the body
  as it is; the reason is OK for 200, Bad Request for 400, Not Found for 404, Internal
  Server Error for 500 and Unknown Status for every other code; so every header of the
  response is a line of the output. The response built by
  \<^verbatim>\<open>status(400).setHeader("X","y").send("hi")\<close> serializes to a text that starts with
  \<^verbatim>\<open>HTTP/1.1 400 Bad Request\<close> and holds the lines \<^verbatim>\<open>X: y\<close>, \<^verbatim>\<open>Content-Type: text/plain\<close>
  and \<^verbatim>\<open>Content-Length: 2\<close>.
\<close>

theorem C4_serialization:
  assumes "iteration_order ks res"
  shows "(\<exists>hs. distinct (map fst hs) \<and> map_of hs = headers_res res \<and>
            toHttpResponse ks res =
              ''HTTP/1.1 '' @ show_int (statusCode res) @ '' '' @ getStatusMessage res @ crlf
              @ concat (map (\<lambda>(k, v). k @ '': '' @ v @ crlf) hs)
              @ crlf @ body_res res) \<and>
         getStatusMessage res =
           (if statusCode res = 200 then ''OK''
            else if statusCode res = 400 then ''Bad Request''
            else if statusCode res = 404 then ''Not Found''
            else if statusCode res = 500 then ''Internal Server Error''
            else ''Unknown Status'') \<and>
         (\<forall>k v. headers_res res k = Some v \<longrightarrow>
            sublist (k @ '': '' @ v @ crlf) (toHttpResponse ks res)) \<and>
         (res = send ''hi'' (setHeader ''X'' ''y'' (status 400 Response_ctor)) \<longrightarrow>
            prefix (''HTTP/1.1 400 Bad Request'' @ crlf) (toHttpResponse ks res) \<and>
            sublist (''X: y'' @ crlf) (toHttpResponse ks res) \<and>
            sublist (''Content-Type: text/plain'' @ crlf) (toHttpResponse ks res) \<and>
            sublist (''Content-Length: 2'' @ crlf) (toHttpResponse ks res))"
proof -
  from assms have dom: "set ks = dom (headers_res res)"
    by (simp add: iteration_order_def)
  from header_lines_pairs [OF assms] have general:
    "\<exists>hs. distinct (map fst hs) \<and> map_of hs = headers_res res \<and>
            toHttpResponse ks res =
              ''HTTP/1.1 '' @ show_int (statusCode res) @ '' '' @ getStatusMessage res @ crlf
              @ concat (map (\<lambda>(k, v). k @ '': '' @ v @ crlf) hs)
              @ crlf @ body_res res"
    unfolding toHttpResponse_def by auto
  have lines: "\<forall>k v. headers_res res k = Some v \<longrightarrow>
            sublist (k @ '': '' @ v @ crlf) (toHttpResponse ks res)"
  proof (intro allI impI)
    fix k v assume h: "headers_res res k = Some v"
    with dom have "k \<in> set ks" by auto
    then show "sublist (k @ '': '' @ v @ crlf) (toHttpResponse ks res)"
      using h by (rule header_line_sublist)
  qed
  have example: "prefix (''HTTP/1.1 400 Bad Request'' @ crlf) (toHttpResponse ks res) \<and>
            sublist (''X: y'' @ crlf) (toHttpResponse ks res) \<and>
            sublist (''Content-Type: text/plain'' @ crlf) (toHttpResponse ks res) \<and>
            sublist (''Content-Length: 2'' @ crlf) (toHttpResponse ks res)"
    if r: "res = send ''hi'' (setHeader ''X'' ''y'' (status 400 Response_ctor))"
  proof -
    from r have e: "res = example_response" by (simp add: example_response_def)
    have "prefix (''HTTP/1.1 400 Bad Request'' @ crlf) (toHttpResponse ks res)"
      unfolding e toHttpResponse_def
      by (simp add: example_response_fields show_int_400 getStatusMessage_def)
    moreover have "sublist (''X: y'' @ crlf) (toHttpResponse ks res)"
      using lines example_response_fields(3) unfolding e by fastforce
    moreover have "sublist (''Content-Type: text/plain'' @ crlf) (toHttpResponse ks res)"
      using lines example_response_fields(4) unfolding e by fastforce
    moreover have "sublist (''Content-Length: 2'' @ crlf) (toHttpResponse ks res)"
      using lines example_response_fields(5) unfolding e by fastforce
    ultimately show ?thesis by blast
  qed
  have table: "getStatusMessage res =
           (if statusCode res = 200 then ''OK''
            else if statusCode res = 400 then ''Bad Request''
            else if statusCode res = 404 then ''Not Found''
            else if statusCode res = 500 then ''Internal Server Error''
            else ''Unknown Status'')"
    by (simp add: getStatusMessage_def)
  from general table lines example show ?thesis by blast
qed

theorem C4_serialization_witness:
  "iteration_order [''Content-Length'', ''X'', ''Content-Type'']
     (send ''hi'' (setHeader ''X'' ''y'' (status 400 Response_ctor))) \<and>
   toHttpResponse [''Content-Length'', ''X'', ''Content-Type'']
     (send ''hi'' (setHeader ''X'' ''y'' (status 400 Response_ctor)))
     = ''HTTP/1.1 400 Bad Request'' @ crlf @ ''Content-Length: 2'' @ crlf @ ''X: y'' @ crlf
       @ ''Content-Type: text/plain'' @ crlf @ crlf @ ''hi'' \<and>
   sublist (''X: y'' @ crlf)
     (toHttpResponse [''Content-Length'', ''X'', ''Content-Type'']
        (send ''hi'' (setHeader ''X'' ''y'' (status 400 Response_ctor))))"
proof -
  let ?ks = "[''Content-Length'', ''X'', ''Content-Type'']"
  have io: "iteration_order ?ks example_response"
    unfolding iteration_order_def example_response_fields(6) by auto
  have out: "toHttpResponse ?ks example_response
     = ''HTTP/1.1 400 Bad Request'' @ crlf @ ''Content-Length: 2'' @ crlf @ ''X: y'' @ crlf
       @ ''Content-Type: text/plain'' @ crlf @ crlf @ ''hi''"
    by (simp add: toHttpResponse_def header_line_def example_response_fields show_int_400
        getStatusMessage_def)
  from C4_serialization [OF io] have "sublist (''X: y'' @ crlf) (toHttpResponse ?ks example_response)"
    unfolding example_response_def by blast
  with io out show ?thesis unfolding example_response_def by simp
qed

subsection \<open>The dispatcher\<close>

lemma handleRequest_Sent:
  assumes "NUL \<in> set (fill_buffer bytes)"
    and "Request_ctor (takeWhile (\<lambda>c. c \<noteq> NUL) (fill_buffer bytes)) = Inr req"
  shows "handleRequest app (Some bytes) =
           Sent (not_found_fallback
             (case routes app (path req) of
                Some handler \<Rightarrow> handler req (Response_ctor\<lparr>statusCode := 404\<rparr>)
              | None \<Rightarrow> Response_ctor\<lparr>statusCode := 404\<rparr>))"
  using assms by (simp add: handleRequest_def Let_def)

lemma not_found_fallback_empty:
  "body_res res = [] \<Longrightarrow>
     statusCode (not_found_fallback res) = 404 \<and> body_res (not_found_fallback res) = ''Not Found''"
  by (simp add: not_found_fallback_def send_def setHeader_def status_def Let_def)

lemma not_found_fallback_nonempty: "body_res res \<noteq> [] \<Longrightarrow> not_found_fallback res = res"
  by (simp add: not_found_fallback_def)

lemma not_found_fallback_body: "body_res (not_found_fallback res) \<noteq> []"
  by (simp add: not_found_fallback_def send_def setHeader_def status_def Let_def)

lemma buffer_of_short:
  assumes "length bytes < BUFFER_SIZE" and "NUL \<notin> set bytes"
  shows "NUL \<in> set (fill_buffer bytes)"
    and "takeWhile (\<lambda>c. c \<noteq> NUL) (fill_buffer bytes) = bytes"
proof -
  from assms(1) obtain n where n: "BUFFER_SIZE - length bytes = Suc n"
    by (cases "BUFFER_SIZE - length bytes") auto
  from assms(1) have t: "take BUFFER_SIZE bytes = bytes" by simp
  show "NUL \<in> set (fill_buffer bytes)"
    by (simp add: fill_buffer_def n)
  show "takeWhile (\<lambda>c. c \<noteq> NUL) (fill_buffer bytes) = bytes"
    using assms(2) by (simp add: fill_buffer_def t n takeWhile_append)
qed

lemma missing_request_short:
  "length missing_request < BUFFER_SIZE" "NUL \<notin> set missing_request"
  by (simp_all add: missing_request_def crlf_def BUFFER_SIZE_def)

lemma missing_request_ok: "\<not> isl (Request_ctor missing_request)"
  by (simp add: Request_ctor_isl missing_request_def request_line_eval url_eval crlf_def)

lemma missing_request_url:
  "url (fst (read_request_line missing_request (Request_init 0))) = ''/nothing''"
  by (simp add: missing_request_def request_line_eval crlf_def)

lemma missing_request_path: "path (projr (Request_ctor missing_request)) = ''/nothing''"
proof -
  note ex = Request_ctor_projr [OF missing_request_ok]
  have u: "url (projr (Request_ctor missing_request)) = ''/nothing''"
    using Request_ctor_Inr(1) [OF ex] by (simp only: missing_request_url)
  show ?thesis using Request_ctor_Inr(3) [OF ex] by (simp add: u)
qed

text \<open>
  Claim C3. For every connection whose bytes were read and whose request the constructor
  accepted: the handler, when the path is registered, runs on a response whose status is
  404; what is sent is the response after the handler (or the initial one when the path
  is not registered), except that a response with an empty body is sent with status 404
  and body \<open>Not Found\<close>; so an unregistered path yields status 404 and body \<open>Not Found\<close>.
\<close>

theorem C3_default_not_found:
  assumes "NUL \<in> set (fill_buffer bytes)"
    and "Request_ctor (takeWhile (\<lambda>c. c \<noteq> NUL) (fill_buffer bytes)) = Inr req"
  shows "\<exists>res. handleRequest app (Some bytes) = Sent (not_found_fallback res) \<and>
           res = (case routes app (path req) of
                    Some handler \<Rightarrow> handler req (Response_ctor\<lparr>statusCode := 404\<rparr>)
                  | None \<Rightarrow> Response_ctor\<lparr>statusCode := 404\<rparr>) \<and>
           statusCode (Response_ctor\<lparr>statusCode := 404\<rparr>) = 404 \<and>
           (body_res res = [] \<longrightarrow>
              statusCode (not_found_fallback res) = 404 \<and>
              body_res (not_found_fallback res) = ''Not Found'') \<and>
           (body_res res \<noteq> [] \<longrightarrow> not_found_fallback res = res) \<and>
           (routes app (path req) = None \<longrightarrow>
              statusCode (not_found_fallback res) = 404 \<and>
              body_res (not_found_fallback res) = ''Not Found'')"
proof -
  let ?res404 = "Response_ctor\<lparr>statusCode := 404\<rparr>"
  let ?res = "case routes app (path req) of
                Some handler \<Rightarrow> handler req ?res404 | None \<Rightarrow> ?res404"
  have sent: "handleRequest app (Some bytes) = Sent (not_found_fallback ?res)"
    by (rule handleRequest_Sent [OF assms])
  have empty404: "body_res ?res404 = []"
    by (simp add: Response_ctor_def)
  have unregistered: "statusCode (not_found_fallback ?res) = 404 \<and>
                      body_res (not_found_fallback ?res) = ''Not Found''"
    if "routes app (path req) = None"
    using that not_found_fallback_empty [OF empty404] by simp
  from sent unregistered not_found_fallback_empty [of ?res] not_found_fallback_nonempty [of ?res]
  show ?thesis by (intro exI [of _ ?res]) simp
qed

theorem C3_default_not_found_witness:
  "handleRequest \<lparr>routes = [''/a'' \<mapsto> handler_one]\<rparr> (Some missing_request)
     = Sent (not_found_fallback (Response_ctor\<lparr>statusCode := 404\<rparr>)) \<and>
   statusCode (not_found_fallback (Response_ctor\<lparr>statusCode := 404\<rparr>)) = 404 \<and>
   body_res (not_found_fallback (Response_ctor\<lparr>statusCode := 404\<rparr>)) = ''Not Found''"
proof -
  note b = buffer_of_short [OF missing_request_short]
  have ex: "Request_ctor (takeWhile (\<lambda>c. c \<noteq> NUL) (fill_buffer missing_request))
              = Inr (projr (Request_ctor missing_request))"
    unfolding b(2) by (rule Request_ctor_projr [OF missing_request_ok])
  have none: "routes \<lparr>routes = [''/a'' \<mapsto> handler_one]\<rparr> (path (projr (Request_ctor missing_request)))
                = None"
    by (simp add: missing_request_path)
  from C3_default_not_found [OF b(1) ex, of "\<lparr>routes = [''/a'' \<mapsto> handler_one]\<rparr>"] none
  show ?thesis by auto
qed

subsection \<open>The route table\<close>

lemma register_routes:
  "routes (register g app) = (routes app)(reg_path g \<mapsto> reg_handler g)"
  by (cases g) (simp_all add: get_def post_def)

lemma fold_register_routes:
  "routes (fold register regs app) p =
     (case List.find (\<lambda>g. reg_path g = p) (rev regs) of
        Some g \<Rightarrow> Some (reg_handler g)
      | None \<Rightarrow> routes app p)"
proof (induction regs rule: rev_induct)
  case Nil
  show ?case by simp
next
  case (snoc g regs)
  then show ?case by (simp add: register_routes)
qed

text \<open>
  Claim C5. After any sequence of calls of \<open>get\<close> and \<open>post\<close> the route table maps a path
  \<open>p\<close> to the handler of the last call for \<open>p\<close> (and as before when there was none);
  \<open>get\<close> and \<open>post\<close> write the same entry, so the method distinguishes nothing; and a
  request with path \<open>p\<close> is answered by running that last handler.
\<close>

theorem C5_last_registration_wins:
  "routes (fold register regs app) p =
     (case List.find (\<lambda>g. reg_path g = p) (rev regs) of
        Some g \<Rightarrow> Some (reg_handler g)
      | None \<Rightarrow> routes app p) \<and>
   routes (get p h app) p = Some h \<and> routes (post p h app) p = Some h \<and>
   routes (post p h (get p h' app)) = routes (post p h app) \<and>
   routes (get p h (post p h' app)) = routes (get p h app) \<and>
   (NUL \<in> set (fill_buffer bytes) \<and>
    Request_ctor (takeWhile (\<lambda>c. c \<noteq> NUL) (fill_buffer bytes)) = Inr req \<and>
    List.find (\<lambda>g. reg_path g = path req) (rev regs) = Some g \<longrightarrow>
      handleRequest (fold register regs app) (Some bytes) =
        Sent (not_found_fallback (reg_handler g req (Response_ctor\<lparr>statusCode := 404\<rparr>))))"
proof -
  have dispatch: "handleRequest (fold register regs app) (Some bytes) =
        Sent (not_found_fallback (reg_handler g req (Response_ctor\<lparr>statusCode := 404\<rparr>)))"
    if "NUL \<in> set (fill_buffer bytes)"
      and "Request_ctor (takeWhile (\<lambda>c. c \<noteq> NUL) (fill_buffer bytes)) = Inr req"
      and "List.find (\<lambda>g. reg_path g = path req) (rev regs) = Some g"
    using handleRequest_Sent [OF that(1,2), of "fold register regs app"] that(3)
    by (simp add: fold_register_routes)
  have "routes (post p h (get p h' app)) = routes (post p h app)"
       "routes (get p h (post p h' app)) = routes (get p h app)"
    by (simp_all add: get_def post_def)
  with dispatch fold_register_routes [of regs app p] show ?thesis
    by (simp add: get_def post_def)
qed

lemma route_request_short:
  "length route_request < BUFFER_SIZE" "NUL \<notin> set route_request"
  by (simp_all add: route_request_def crlf_def BUFFER_SIZE_def)

lemma route_request_ok: "\<not> isl (Request_ctor route_request)"
  by (simp add: Request_ctor_isl route_request_def request_line_eval url_eval crlf_def)

lemma route_request_url:
  "url (fst (read_request_line route_request (Request_init 0))) = ''/a''"
  by (simp add: route_request_def request_line_eval crlf_def)

lemma route_request_path: "path (projr (Request_ctor route_request)) = ''/a''"
proof -
  note ex = Request_ctor_projr [OF route_request_ok]
  have u: "url (projr (Request_ctor route_request)) = ''/a''"
    using Request_ctor_Inr(1) [OF ex] by (simp only: route_request_url)
  show ?thesis using Request_ctor_Inr(3) [OF ex] by (simp add: u)
qed

theorem C5_last_registration_wins_witness:
  "routes (fold register [Get ''/a'' handler_one, Post ''/b'' handler_one, Post ''/a'' handler_two]
             \<lparr>routes = Map.empty\<rparr>) ''/a'' = Some handler_two \<and>
   handleRequest (fold register [Get ''/a'' handler_one, Post ''/b'' handler_one, Post ''/a'' handler_two]
             \<lparr>routes = Map.empty\<rparr>) (Some route_request)
     = Sent (not_found_fallback (handler_two (projr (Request_ctor route_request))
               (Response_ctor\<lparr>statusCode := 404\<rparr>))) \<and>
   body_res (not_found_fallback (handler_two (projr (Request_ctor route_request))
               (Response_ctor\<lparr>statusCode := 404\<rparr>))) = ''two''"
proof -
  let ?regs = "[Get ''/a'' handler_one, Post ''/b'' handler_one, Post ''/a'' handler_two]"
  let ?app = "\<lparr>routes = Map.empty\<rparr>"
  let ?req = "projr (Request_ctor route_request)"
  note b = buffer_of_short [OF route_request_short]
  have ex: "Request_ctor (takeWhile (\<lambda>c. c \<noteq> NUL) (fill_buffer route_request)) = Inr ?req"
    unfolding b(2) by (rule Request_ctor_projr [OF route_request_ok])
  have f: "List.find (\<lambda>g. reg_path g = path ?req) (rev ?regs) = Some (Post ''/a'' handler_two)"
    by (simp add: route_request_path)
  have f': "List.find (\<lambda>g. reg_path g = ''/a'') (rev ?regs) = Some (Post ''/a'' handler_two)"
    by simp
  note t = C5_last_registration_wins [of ?regs ?app "''/a''" _ _ route_request ?req
      "Post ''/a'' handler_two"]
  from t f' have r: "routes (fold register ?regs ?app) ''/a'' = Some handler_two"
    by simp
  from t b(1) ex f have d: "handleRequest (fold register ?regs ?app) (Some route_request)
     = Sent (not_found_fallback (handler_two ?req (Response_ctor\<lparr>statusCode := 404\<rparr>)))"
    by simp
  have "body_res (not_found_fallback (handler_two ?req (Response_ctor\<lparr>statusCode := 404\<rparr>))) = ''two''"
    by (simp add: not_found_fallback_def handler_two_def send_def setHeader_def status_def Let_def)
  with r d show ?thesis by simp
qed

end
